theory Spec2Isabelle
  imports
    Main
    "HOL-Library.AList"
    "HOL-Library.Char_ord"
    "HOL-Library.List_Lexorder"
    "HOL-Library.Sublist"
begin

section \<open>Values, log records and errors\<close>

text \<open>
  The Go side passes untyped values (\<^verbatim>\<open>any\<close>) around: invocation inputs
  (\<^verbatim>\<open>map[string]any\<close>), the persistent environment and the results read back
  from the script engine.  The tagged variant below covers nil, booleans, integers,
  strings, slices (\<^verbatim>\<open>[]any\<close>) and string-keyed maps (\<^verbatim>\<open>map[string]any\<close>).
  Floating-point numbers and the remaining Go types that \<^verbatim>\<open>any\<close> admits are not
  represented, and neither is the difference between a nil and an empty slice or map.

  A Go map has no order of its own.  It is written as an association list whose keys are
  pairwise distinct; the order of the list stands for the incidental layout that the
  history of insertions leaves behind, and no operation below may depend on it unless the
  Go code does.
\<close>

datatype val =
    VNil
  | VBool bool
  | VInt int
  | VStr string
  | VArr "val list"
  | VMap "(string \<times> val) list"

type_synonym gomap = "(string \<times> val) list"

text \<open>
  The structured logger (\<^verbatim>\<open>*slog.Logger\<close>) is an effect; it is modelled by the list of
  records written so far, oldest first.  A record keeps its level, its message and the
  alternating key/value arguments of the call.  \<open>AErr s\<close> stands for the fields that
  \<^verbatim>\<open>errorToFields\<close> derives from the error text \<open>s\<close>; they are not expanded here.
\<close>

datatype level = LDebug | LInfo | LWarn | LError

datatype logarg = AStr string | ANat nat | AVal val | AErr string

type_synonym log_entry = "level \<times> string \<times> logarg list"

text \<open>
  Every \<^verbatim>\<open>fmt.Errorf\<close> / \<^verbatim>\<open>errors.New\<close> of \<^verbatim>\<open>anko.go\<close> is a constructor:
  \<^item> \<open>RuleNotFound r\<close>: \<^verbatim>\<open>rule '%s' not found\<close>
  \<^item> \<open>CompileError r err\<close>: \<^verbatim>\<open>failed to compile rule '%s': %w\<close>
  \<^item> \<open>RuntimeError r err\<close>: \<^verbatim>\<open>failed to run rule '%s': %w\<close>
  \<^item> \<open>MissingResult\<close>: \<^verbatim>\<open>rule did not set the global variable 'result'\<close>
  \<^item> \<open>ItemNotMap f i\<close>: \<^verbatim>\<open><f>: item %d is not a map\<close>
  \<^item> \<open>ItemMissingKey f i k\<close>: \<^verbatim>\<open><f>: item %d missing required key: %s\<close>
  \<^item> \<open>MissingKey f k\<close>: \<^verbatim>\<open><f>: missing required key: %s\<close>
  \<^item> \<open>GenresNotArray\<close>: \<^verbatim>\<open>NovelInfoRule: key 'genres' is not an array\<close>
\<close>

datatype error =
    RuleNotFound string
  | CompileError string string
  | RuntimeError string string
  | MissingResult
  | ItemNotMap string nat
  | ItemMissingKey string nat string
  | MissingKey string string
  | GenresNotArray

section \<open>String helpers of the Go standard library\<close>

definition newline :: char where
  "newline = CHR 0x0A"

definition dquote :: char where
  "dquote = CHR 0x22"

definition HasPrefix :: "string \<Rightarrow> string \<Rightarrow> bool" where
  "HasPrefix s p = (take (length p) s = p)"

definition TrimPrefix :: "string \<Rightarrow> string \<Rightarrow> string" where
  "TrimPrefix s p = (if HasPrefix s p then drop (length p) s else s)"

text \<open>\<^verbatim>\<open>strings.ReplaceAll(s, old, new)\<close> for one-byte \<open>old\<close> and \<open>new\<close>.\<close>

definition ReplaceAll :: "string \<Rightarrow> char \<Rightarrow> char \<Rightarrow> string" where
  "ReplaceAll s old new = map (\<lambda>c. if c = old then new else c) s"

section \<open>Policy resolver: \<^verbatim>\<open>buildPreamble\<close> (utils.go)\<close>

record Rule =
  Imports :: "string list"
  Code :: string

text \<open>The keys of \<^verbatim>\<open>extras.ExtraModules\<close> (extra.go).\<close>

definition AllExtraModuleNames :: "string list" where
  "AllExtraModuleNames = [''log'', ''req'', ''html'', ''anko'']"

text \<open>
  The loop over \<^verbatim>\<open>rule.Imports\<close>.  Its state is the text written to the string
  builder, the slice \<^verbatim>\<open>allowedModules\<close> and the records logged so far.
  \<open>stdNames\<close> is \<^verbatim>\<open>stdlib.AllModuleNames()\<close> of the script engine's library.
\<close>

fun buildPreamble_loop ::
  "(string \<rightharpoonup> string) \<Rightarrow> string list \<Rightarrow> string list \<Rightarrow> string list \<Rightarrow>
   string \<times> string list \<times> log_entry list \<Rightarrow> string \<times> string list \<times> log_entry list" where
  "buildPreamble_loop functions stdNames denyList [] st = st"
| "buildPreamble_loop functions stdNames denyList (imp # rest) (preamble, allowedModules, lg) =
     (if HasPrefix imp ''fn:'' then
        (let key = TrimPrefix imp ''fn:'' in
         case functions key of
           None \<Rightarrow>
             buildPreamble_loop functions stdNames denyList rest
               (preamble, allowedModules,
                lg @ [(LError, ''Function not found'', [AStr ''function'', AStr key])])
         | Some fnLiteral \<Rightarrow>
             (let globalName = ''fn_'' @ ReplaceAll key (CHR ''.'') (CHR ''_'') in
              buildPreamble_loop functions stdNames denyList rest
                (preamble @ [newline] @ globalName @ '' := '' @ fnLiteral, allowedModules, lg)))
      else if imp \<in> set denyList then
        buildPreamble_loop functions stdNames denyList rest
          (preamble, allowedModules,
           lg @ [(LWarn, ''Import denied'', [AStr ''import'', AStr imp])])
      else if imp \<in> set stdNames \<or> imp \<in> set AllExtraModuleNames then
        buildPreamble_loop functions stdNames denyList rest
          (preamble @ imp @ '' := import('' @ [dquote] @ imp @ [dquote] @ '')'' @ [newline],
           allowedModules @ [imp], lg)
      else
        buildPreamble_loop functions stdNames denyList rest
          (preamble, allowedModules,
           lg @ [(LWarn, ''Unrecognized standard import'', [AStr ''import'', AStr imp])]))"

definition buildPreamble ::
  "Rule \<Rightarrow> (string \<rightharpoonup> string) \<Rightarrow> string list \<Rightarrow> string list \<Rightarrow>
   string \<times> string list \<times> log_entry list" where
  "buildPreamble rule functions stdNames denyList =
     buildPreamble_loop functions stdNames denyList (Imports rule) ([], [], [])"

section \<open>Fingerprint of the invocation inputs: \<^verbatim>\<open>serializeEnv\<close> (utils.go)\<close>

text \<open>
  \<^verbatim>\<open>serializeEnv\<close> is \<^verbatim>\<open>fmt.Sprintf("%#v", envVars)\<close>.  The formatting itself belongs
  to Go's \<^verbatim>\<open>fmt\<close> package, which is documented to print a map in the sorted order
  of its keys (strings are compared bytewise), each entry as \<^verbatim>\<open>key:value\<close>, entries and
  slice elements separated by a comma and a blank.  The rendering of a value that is
  neither a slice nor a map (and so of the quoted map keys) is left to the parameter
  \<open>scalar\<close>.
\<close>

fun joinWith :: "string \<Rightarrow> string list \<Rightarrow> string" where
  "joinWith sep [] = []"
| "joinWith sep [x] = x"
| "joinWith sep (x # y # ys) = x @ sep @ joinWith sep (y # ys)"

fun goSyntax :: "(val \<Rightarrow> string) \<Rightarrow> val \<Rightarrow> string" where
  "goSyntax scalar (VArr xs) =
     ''[]interface {}{'' @ joinWith '', '' (map (goSyntax scalar) xs) @ ''}''"
| "goSyntax scalar (VMap m) =
     ''map[string]interface {}{'' @
       joinWith '', ''
         (map (\<lambda>kv. scalar (VStr (fst kv)) @ '':'' @ goSyntax scalar (snd kv)) (sort_key fst m)) @
     ''}''"
| "goSyntax scalar v = scalar v"

definition serializeEnv :: "(val \<Rightarrow> string) \<Rightarrow> gomap \<Rightarrow> string" where
  "serializeEnv scalar envVars = goSyntax scalar (VMap envVars)"

text \<open>
  When two values of the model stand for the same Go value: they are equal, or slices of
  the same length whose elements do so at each index, or maps with the same keys whose
  values do so at each key.  The order of the association lists plays no part.
\<close>

inductive sameVal :: "val \<Rightarrow> val \<Rightarrow> bool" where
  same: "sameVal v v"
| arr: "list_all2 sameVal xs ys \<Longrightarrow> sameVal (VArr xs) (VArr ys)"
| map: "distinct (map fst m1) \<Longrightarrow> distinct (map fst m2) \<Longrightarrow> fst ` set m1 = fst ` set m2 \<Longrightarrow>
        (\<forall>k v1 v2. (k, v1) \<in> set m1 \<longrightarrow> (k, v2) \<in> set m2 \<longrightarrow> sameVal v1 v2) \<Longrightarrow>
        sameVal (VMap m1) (VMap m2)"

section \<open>Conversion of the environment: \<^verbatim>\<open>toTengoObject\<close>, \<^verbatim>\<open>createEnvVariable\<close> (utils.go)\<close>

datatype tobj =
    TString string
  | TBool bool
  | TInt int
  | TArray "tobj list"
  | TImmutableMap "(string \<times> tobj) list"

text \<open>The default branch formats with \<^verbatim>\<open>%v\<close>; of the values modelled only nil reaches it.\<close>

fun toTengoObject :: "val \<Rightarrow> tobj" where
  "toTengoObject (VStr s) = TString s"
| "toTengoObject (VBool b) = TBool b"
| "toTengoObject (VInt i) = TInt i"
| "toTengoObject (VArr xs) = TArray (map toTengoObject xs)"
| "toTengoObject (VMap m) = TImmutableMap (map (\<lambda>kv. (fst kv, toTengoObject (snd kv))) m)"
| "toTengoObject VNil = TString ''<nil>''"

definition createEnvVariable :: "gomap \<Rightarrow> tobj" where
  "createEnvVariable envData = TImmutableMap (map (\<lambda>kv. (fst kv, toTengoObject (snd kv))) envData)"

section \<open>The engine (anko.go)\<close>

text \<open>
  The script engine and the formatting library are collaborators whose code is not part of
  the repository.  Their operations are the fields of a record that every function of the
  engine receives:
  \<^item> \<open>AllModuleNames\<close>: \<^verbatim>\<open>stdlib.AllModuleNames()\<close>;
  \<^item> \<open>Compile code modules env\<close>: \<^verbatim>\<open>tengo.NewScript\<close>, \<^verbatim>\<open>SetImports\<close> with the module map
    of the allowed names, \<^verbatim>\<open>Add\<close> of the environment object and of the two fixed helper
    functions, then \<^verbatim>\<open>script.Compile()\<close>: an error text or a compiled program;
  \<^item> \<open>Run c\<close>: \<^verbatim>\<open>c.Run()\<close>, which returns an error or nil and changes the program's
    globals in place: the result is the error and the program afterwards;
  \<^item> \<open>GetVar c name\<close>: \<^verbatim>\<open>c.Get(name)\<close>, a variable or nil;
  \<^item> \<open>GoScalar\<close>: the \<^verbatim>\<open>%#v\<close> rendering of values that are neither slices nor maps.
\<close>

record 'c library =
  AllModuleNames :: "string list"
  Compile :: "string \<Rightarrow> string list \<Rightarrow> tobj \<Rightarrow> string + 'c"
  Run :: "'c \<Rightarrow> string option \<times> 'c"
  GetVar :: "'c \<Rightarrow> string \<Rightarrow> val option"
  GoScalar :: "val \<Rightarrow> string"

text \<open>
  \<^verbatim>\<open>Variable.Array()\<close> and \<^verbatim>\<open>Variable.Map()\<close> of the script engine convert the value
  read back; they return nil (here: the empty list) when the value has another shape.
\<close>

definition ArrayOf :: "val \<Rightarrow> val list" where
  "ArrayOf v = (case v of VArr xs \<Rightarrow> xs | _ \<Rightarrow> [])"

definition MapOf :: "val \<Rightarrow> gomap" where
  "MapOf v = (case v of VMap m \<Rightarrow> m | _ \<Rightarrow> [])"

text \<open>
  The calls made to the script engine are effects too.  \<open>Trace\<close> lists them in order:
  \<open>EvCompile r\<close> for a \<^verbatim>\<open>script.Compile()\<close> of rule \<open>r\<close>, \<open>EvRun r\<close> for a \<^verbatim>\<open>Run()\<close>.
  It is not a field of the Go struct.  The struct's \<^verbatim>\<open>Metadata\<close> is never read by the
  functions below and is left out.  A cache entry is a pointer to the compiled program, and
  \<^verbatim>\<open>Run\<close> changes that program in place, so after a run the entry holds the program as the
  run left it.
\<close>

datatype call = EvCompile string | EvRun string

record 'c Engine =
  Env :: gomap
  Rules :: "string \<rightharpoonup> Rule"
  Functions :: "string \<rightharpoonup> string"
  compiledCache :: "string \<rightharpoonup> 'c"
  Logger :: "log_entry list"
  denyLibs :: "string list"
  CacheEnabled :: bool
  lastInputs :: "string \<rightharpoonup> string"
  Trace :: "call list"

definition NewEngine :: "'c Engine" where
  "NewEngine =
     \<lparr>Env = [], Rules = Map.empty, Functions = Map.empty, compiledCache = Map.empty,
      Logger = [], denyLibs = [], CacheEnabled = True, lastInputs = Map.empty, Trace = []\<rparr>"

definition SetDenyLibs :: "string list \<Rightarrow> 'c Engine \<Rightarrow> 'c Engine" where
  "SetDenyLibs deny e = e\<lparr>denyLibs := deny\<rparr>"

definition EnableCache :: "'c Engine \<Rightarrow> 'c Engine" where
  "EnableCache e = e\<lparr>CacheEnabled := True\<rparr>"

definition DisableCache :: "'c Engine \<Rightarrow> 'c Engine" where
  "DisableCache e = e\<lparr>CacheEnabled := False, compiledCache := Map.empty, lastInputs := Map.empty\<rparr>"

definition AddEnvVar :: "string \<Rightarrow> val \<Rightarrow> 'c Engine \<Rightarrow> 'c Engine" where
  "AddEnvVar key v e = e\<lparr>Env := AList.update key v (Env e)\<rparr>"

definition logTo :: "log_entry list \<Rightarrow> 'c Engine \<Rightarrow> 'c Engine" where
  "logTo entries e = e\<lparr>Logger := Logger e @ entries\<rparr>"

definition RunRule :: "'c library \<Rightarrow> 'c Engine \<Rightarrow> string \<Rightarrow> (error + 'c) \<times> 'c Engine" where
  "RunRule lib e ruleName =
     (case (if CacheEnabled e then compiledCache e ruleName else None) of
        Some cached \<Rightarrow>
          (let e1 = logTo [(LInfo, ''Running cached rule'', [AStr ''rule'', AStr ruleName])] e;
               ran = Run lib cached;
               e2 = e1\<lparr>compiledCache := (compiledCache e1)(ruleName \<mapsto> snd ran),
                       Trace := Trace e1 @ [EvRun ruleName]\<rparr>
           in (Inr (snd ran), e2))
      | None \<Rightarrow>
          (case Rules e ruleName of
             None \<Rightarrow>
               (Inl (RuleNotFound ruleName),
                logTo [(LError, ''Rule not found'', [AStr ''rule'', AStr ruleName])] e)
           | Some rule \<Rightarrow>
               (let built = buildPreamble rule (Functions e) (AllModuleNames lib) (denyLibs e);
                    preamble = fst built;
                    allowedModules = fst (snd built);
                    finalCode = preamble @ [newline] @ Code rule;
                    e1 = logTo (snd (snd built) @
                           [(LDebug, ''Compiling rule'',
                             [AStr ''rule'', AStr ruleName, AStr ''code'', AStr finalCode])]) e;
                    e2 = e1\<lparr>Trace := Trace e1 @ [EvCompile ruleName]\<rparr>
                in case Compile lib finalCode allowedModules (createEnvVariable (Env e)) of
                     Inl err \<Rightarrow>
                       (Inl (CompileError ruleName err),
                        logTo [(LError, ''Failed to compile rule'', [AStr ''rule'', AStr ruleName])] e2)
                   | Inr compiled \<Rightarrow>
                       (let e3 = (if CacheEnabled e2
                                  then e2\<lparr>compiledCache := (compiledCache e2)(ruleName \<mapsto> compiled)\<rparr>
                                  else e2);
                            ran = Run lib compiled;
                            e4 = (if CacheEnabled e3
                                  then e3\<lparr>compiledCache := (compiledCache e3)(ruleName \<mapsto> snd ran)\<rparr>
                                  else e3);
                            e5 = e4\<lparr>Trace := Trace e4 @ [EvRun ruleName]\<rparr>
                        in case fst ran of
                             Some err \<Rightarrow>
                               (Inl (RuntimeError ruleName err),
                                logTo [(LError, ''Engine error'',
                                        [AStr ''rule'', AStr ruleName, AErr err])] e5)
                           | None \<Rightarrow> (Inr (snd ran), e5)))))"

definition RunRuleAndGetResult ::
  "'c library \<Rightarrow> 'c Engine \<Rightarrow> string \<Rightarrow> (error + val) \<times> 'c Engine" where
  "RunRuleAndGetResult lib e ruleName =
     (case RunRule lib e ruleName of
        (Inl err, e1) \<Rightarrow> (Inl err, e1)
      | (Inr compiled, e1) \<Rightarrow>
          (case GetVar lib compiled ''result'' of
             None \<Rightarrow>
               (Inl MissingResult,
                logTo [(LError, ''Rule did not set '' @ [CHR 0x27] @ ''result'' @ [CHR 0x27],
                        [AStr ''rule'', AStr ruleName])] e1)
           | Some resultVar \<Rightarrow> (Inr resultVar, e1)))"

subsection \<open>Cache invalidation on changed inputs\<close>

text \<open>
  The four category functions open with the same block, which differs only in the constant
  \<^verbatim>\<open>ruleName\<close>: when caching is on, the inputs are serialized, and unless the key equals
  the one recorded for the rule, the rule's cache entry is deleted and the key recorded.
\<close>

definition invalidateOnChange :: "'c library \<Rightarrow> string \<Rightarrow> gomap \<Rightarrow> 'c Engine \<Rightarrow> 'c Engine" where
  "invalidateOnChange lib ruleName envVars e =
     (if CacheEnabled e then
        (let key = serializeEnv (GoScalar lib) envVars in
         if (case lastInputs e ruleName of None \<Rightarrow> True | Some prev \<Rightarrow> prev \<noteq> key)
         then e\<lparr>compiledCache := (compiledCache e)(ruleName := None),
                 lastInputs := (lastInputs e)(ruleName \<mapsto> key)\<rparr>
         else e)
      else e)"

subsection \<open>Schema checks\<close>

text \<open>The inner loop over the required keys: the first key the record lacks, if any.\<close>

fun firstMissing :: "gomap \<Rightarrow> string list \<Rightarrow> string option" where
  "firstMissing m [] = None"
| "firstMissing m (key # keys) =
     (case map_of m key of None \<Rightarrow> Some key | Some _ \<Rightarrow> firstMissing m keys)"

text \<open>
  The first loop of \<^verbatim>\<open>SearchRule\<close> and \<^verbatim>\<open>ChapterListRule\<close>, from index \<open>i\<close> on; \<open>f\<close> is the
  function's name, which starts the error message.
\<close>

fun checkItems :: "string \<Rightarrow> nat \<Rightarrow> val list \<Rightarrow> error option" where
  "checkItems f i [] = None"
| "checkItems f i (item # rest) =
     (case item of
        VMap m \<Rightarrow>
          (case firstMissing m [''title'', ''url''] of
             Some key \<Rightarrow> Some (ItemMissingKey f i key)
           | None \<Rightarrow> checkItems f (Suc i) rest)
      | _ \<Rightarrow> Some (ItemNotMap f i))"

text \<open>The second loop: the records are appended to \<^verbatim>\<open>out\<close>, anything else is skipped.\<close>

fun collectMaps :: "val list \<Rightarrow> gomap list" where
  "collectMaps [] = []"
| "collectMaps (item # rest) =
     (case item of VMap m \<Rightarrow> m # collectMaps rest | _ \<Rightarrow> collectMaps rest)"

fun skippedItems :: "val list \<Rightarrow> val list" where
  "skippedItems [] = []"
| "skippedItems (item # rest) =
     (case item of VMap m \<Rightarrow> skippedItems rest | _ \<Rightarrow> item # skippedItems rest)"

definition validateItems :: "string \<Rightarrow> val list \<Rightarrow> error + gomap list" where
  "validateItems f arr =
     (case checkItems f 0 arr of Some err \<Rightarrow> Inl err | None \<Rightarrow> Inr (collectMaps arr))"

text \<open>The loop of \<^verbatim>\<open>NovelInfoRule\<close> over its required keys.\<close>

fun checkInfo :: "gomap \<Rightarrow> string list \<Rightarrow> error option" where
  "checkInfo info [] = None"
| "checkInfo info (key # keys) =
     (case map_of info key of
        None \<Rightarrow> Some (MissingKey ''NovelInfoRule'' key)
      | Some v \<Rightarrow>
          (if key = ''genres'' then
             (case v of VArr xs \<Rightarrow> checkInfo info keys | _ \<Rightarrow> Some GenresNotArray)
           else checkInfo info keys))"

definition infoRequired :: "string list" where
  "infoRequired = [''title'', ''cover'', ''author'', ''description'', ''status'', ''genres'']"

definition validateInfo :: "gomap \<Rightarrow> error + gomap" where
  "validateInfo info =
     (case checkInfo info infoRequired of
        Some err \<Rightarrow> Inl err
      | None \<Rightarrow> Inr info)"

definition validateContent :: "gomap \<Rightarrow> error + gomap" where
  "validateContent content =
     (case firstMissing content [''title'', ''content''] of
        Some key \<Rightarrow> Inl (MissingKey ''ContentRule'' key)
      | None \<Rightarrow> Inr content)"

subsection \<open>The category functions\<close>

text \<open>What \<^verbatim>\<open>SearchRule\<close> logs when its first loop fails.\<close>

fun searchErrorLog :: "error \<Rightarrow> log_entry list" where
  "searchErrorLog (ItemNotMap f i) =
     [(LError, ''SearchRule'', [AStr ''message'', AStr ''item is not a map'', AStr ''item'', ANat i])]"
| "searchErrorLog (ItemMissingKey f i key) =
     [(LError, ''SearchRule'', [AStr ''message'', AStr ''missing required key'', AStr ''key'', AStr key])]"
| "searchErrorLog err = []"

definition SearchRule :: "'c library \<Rightarrow> 'c Engine \<Rightarrow> gomap \<Rightarrow> (error + gomap list) \<times> 'c Engine" where
  "SearchRule lib e envVars =
     (let e1 = invalidateOnChange lib ''search'' envVars e;
          e2 = AddEnvVar ''search'' (VMap envVars) e1
      in case RunRuleAndGetResult lib e2 ''search'' of
           (Inl err, e3) \<Rightarrow> (Inl err, e3)
         | (Inr resultVar, e3) \<Rightarrow>
             (let arr = ArrayOf resultVar in
              case validateItems ''SearchRule'' arr of
                Inl err \<Rightarrow> (Inl err, logTo (searchErrorLog err) e3)
              | Inr out \<Rightarrow>
                  (Inr out,
                   logTo (map (\<lambda>item. (LWarn, ''SearchRule'',
                                 [AStr ''message'', AStr ''skipped non-map item'',
                                  AStr ''item'', AVal item]))
                            (skippedItems arr)) e3)))"

definition NovelInfoRule :: "'c library \<Rightarrow> 'c Engine \<Rightarrow> gomap \<Rightarrow> (error + gomap) \<times> 'c Engine" where
  "NovelInfoRule lib e envVars =
     (let e1 = invalidateOnChange lib ''info'' envVars e;
          e2 = AddEnvVar ''info'' (VMap envVars) e1
      in case RunRuleAndGetResult lib e2 ''info'' of
           (Inl err, e3) \<Rightarrow> (Inl err, e3)
         | (Inr resultVar, e3) \<Rightarrow> (validateInfo (MapOf resultVar), e3))"

definition ChapterListRule ::
  "'c library \<Rightarrow> 'c Engine \<Rightarrow> gomap \<Rightarrow> (error + gomap list) \<times> 'c Engine" where
  "ChapterListRule lib e envVars =
     (let e1 = invalidateOnChange lib ''chapter-list'' envVars e;
          e2 = AddEnvVar ''chapter_list'' (VMap envVars) e1
      in case RunRuleAndGetResult lib e2 ''chapter-list'' of
           (Inl err, e3) \<Rightarrow> (Inl err, e3)
         | (Inr resultVar, e3) \<Rightarrow>
             (let arr = ArrayOf resultVar in
              case validateItems ''ChapterListRule'' arr of
                Inl err \<Rightarrow> (Inl err, e3)
              | Inr out \<Rightarrow>
                  (Inr out,
                   logTo (map (\<lambda>item. (LWarn, ''ChapterListRule: skipped non-map item'',
                                 [AStr ''item'', AVal item]))
                            (skippedItems arr)) e3)))"

definition ContentRule :: "'c library \<Rightarrow> 'c Engine \<Rightarrow> gomap \<Rightarrow> (error + gomap) \<times> 'c Engine" where
  "ContentRule lib e envVars =
     (let e1 = invalidateOnChange lib ''content'' envVars e;
          e2 = AddEnvVar ''content'' (VMap envVars) e1
      in case RunRuleAndGetResult lib e2 ''content'' of
           (Inl err, e3) \<Rightarrow> (Inl err, e3)
         | (Inr resultVar, e3) \<Rightarrow> (validateContent (MapOf resultVar), e3))"

text \<open>
  The four entry points as one function of the category, with the two result shapes under
  one type.  \<open>ruleNameOf\<close> is the constant \<^verbatim>\<open>ruleName\<close> of each.
\<close>

datatype category = Search | Info | ChapterList | Content

datatype outcome = Records "gomap list" | Record gomap

fun ruleNameOf :: "category \<Rightarrow> string" where
  "ruleNameOf Search = ''search''"
| "ruleNameOf Info = ''info''"
| "ruleNameOf ChapterList = ''chapter-list''"
| "ruleNameOf Content = ''content''"

text \<open>The key under which each entry point stores its inputs (its call of \<^verbatim>\<open>AddEnvVar\<close>).\<close>

fun envKeyOf :: "category \<Rightarrow> string" where
  "envKeyOf Search = ''search''"
| "envKeyOf Info = ''info''"
| "envKeyOf ChapterList = ''chapter_list''"
| "envKeyOf Content = ''content''"

fun runCategory ::
  "'c library \<Rightarrow> category \<Rightarrow> 'c Engine \<Rightarrow> gomap \<Rightarrow> (error + outcome) \<times> 'c Engine" where
  "runCategory lib Search e envVars = map_prod (map_sum id Records) id (SearchRule lib e envVars)"
| "runCategory lib Info e envVars = map_prod (map_sum id Record) id (NovelInfoRule lib e envVars)"
| "runCategory lib ChapterList e envVars =
     map_prod (map_sum id Records) id (ChapterListRule lib e envVars)"
| "runCategory lib Content e envVars = map_prod (map_sum id Record) id (ContentRule lib e envVars)"

text \<open>The engine as an entry point hands it to \<^verbatim>\<open>RunRuleAndGetResult\<close>.\<close>

abbreviation prepared :: "'c library \<Rightarrow> category \<Rightarrow> gomap \<Rightarrow> 'c Engine \<Rightarrow> 'c Engine" where
  "prepared lib cat envVars e \<equiv>
     AddEnvVar (envKeyOf cat) (VMap envVars) (invalidateOnChange lib (ruleNameOf cat) envVars e)"

definition compileEvents :: "string \<Rightarrow> call list \<Rightarrow> nat" where
  "compileEvents r tr = length (filter (\<lambda>c. c = EvCompile r) tr)"

section \<open>A small library for running the engine on concrete inputs\<close>

text \<open>
  A stand-in for the collaborators.  A compiled program is its source text.  The text
  \<open>syntax error\<close> does not compile, \<open>boom\<close> fails when run, \<open>content\<close> sets
  \<^verbatim>\<open>result\<close> to the record \<open>{title: T, content: C}\<close>, \<open>list\<close> sets it to a sequence of
  one record, \<open>mixed\<close> to that sequence followed by the number 42, and any other program
  sets no \<^verbatim>\<open>result\<close>.  Strings are rendered between
  double quotes, the other scalars by a fixed word.
\<close>

definition demoCompile :: "string \<Rightarrow> string list \<Rightarrow> tobj \<Rightarrow> string + string" where
  "demoCompile code modules env =
     (if code = newline # ''syntax error'' then Inl ''Compile Error: unexpected token''
      else Inr code)"

definition demoRun :: "string \<Rightarrow> string option \<times> string" where
  "demoRun c = (if c = newline # ''boom'' then (Some ''Runtime Error: boom'', c) else (None, c))"

definition demoGetVar :: "string \<Rightarrow> string \<Rightarrow> val option" where
  "demoGetVar c name =
     (if name = ''result'' \<and> c = newline # ''content''
        then Some (VMap [(''title'', VStr ''T''), (''content'', VStr ''C'')])
      else if name = ''result'' \<and> c = newline # ''list''
        then Some (VArr [VMap [(''title'', VStr ''A''), (''url'', VStr ''u1'')]])
      else if name = ''result'' \<and> c = newline # ''mixed''
        then Some (VArr [VMap [(''title'', VStr ''A''), (''url'', VStr ''u1'')], VInt 42])
      else None)"

definition demoScalar :: "val \<Rightarrow> string" where
  "demoScalar v = (case v of VStr s \<Rightarrow> [dquote] @ s @ [dquote] | _ \<Rightarrow> ''scalar'')"

definition demoLib :: "string library" where
  "demoLib =
     \<lparr>AllModuleNames = [''fmt'', ''math'', ''os'', ''text'', ''times''],
      Compile = demoCompile, Run = demoRun, GetVar = demoGetVar, GoScalar = demoScalar\<rparr>"

text \<open>A freshly created engine whose bundle holds one rule \<open>name\<close> with body \<open>body\<close>.\<close>

definition demoEngine :: "string \<Rightarrow> string \<Rightarrow> string Engine" where
  "demoEngine name body =
     NewEngine\<lparr>Rules := [name \<mapsto> \<lparr>Imports = [], Code = body\<rparr>]\<rparr>"

text \<open>The definitions that a run on concrete inputs unfolds.\<close>

lemmas demo_defs = demoLib_def demoEngine_def demoCompile_def demoRun_def demoGetVar_def
  demoScalar_def NewEngine_def

lemmas engine_defs = RunRule_def RunRuleAndGetResult_def invalidateOnChange_def AddEnvVar_def
  logTo_def buildPreamble_def serializeEnv_def createEnvVariable_def ArrayOf_def MapOf_def
  validateItems_def validateContent_def validateInfo_def Let_def

section \<open>Properties of the policy resolver\<close>

lemma loop_single:
  "buildPreamble_loop F S D (imp # rest) st =
     buildPreamble_loop F S D rest (buildPreamble_loop F S D [imp] st)"
  by (cases st) (simp add: Let_def split: option.split)

lemma loop_append:
  "buildPreamble_loop F S D (xs @ ys) st =
     buildPreamble_loop F S D ys (buildPreamble_loop F S D xs st)"
proof (induction xs arbitrary: st)
  case Nil show ?case by simp
next
  case (Cons imp rest)
  have "buildPreamble_loop F S D ((imp # rest) @ ys) st =
        buildPreamble_loop F S D (rest @ ys) (buildPreamble_loop F S D [imp] st)"
    by (simp only: append_Cons loop_single [of F S D imp "rest @ ys"])
  also have "\<dots> = buildPreamble_loop F S D ys
       (buildPreamble_loop F S D rest (buildPreamble_loop F S D [imp] st))"
    by (rule Cons.IH)
  also have "\<dots> = buildPreamble_loop F S D ys (buildPreamble_loop F S D (imp # rest) st)"
    by (simp only: loop_single [of F S D imp rest])
  finally show ?case .
qed

lemma loop_step_acc:
  "buildPreamble_loop F S D [imp] (p, a, l) =
     (p @ fst (buildPreamble_loop F S D [imp] ([], [], [])),
      a @ fst (snd (buildPreamble_loop F S D [imp] ([], [], []))),
      l @ snd (snd (buildPreamble_loop F S D [imp] ([], [], []))))"
  by (simp add: Let_def split: option.split)

lemma loop_acc:
  "buildPreamble_loop F S D xs (p, a, l) =
     (p @ fst (buildPreamble_loop F S D xs ([], [], [])),
      a @ fst (snd (buildPreamble_loop F S D xs ([], [], []))),
      l @ snd (snd (buildPreamble_loop F S D xs ([], [], []))))"
proof (induction xs arbitrary: p a l)
  case Nil
  show ?case by simp
next
  case (Cons imp rest)
  obtain p1 a1 l1 where s1: "buildPreamble_loop F S D [imp] ([], [], []) = (p1, a1, l1)"
    by (cases "buildPreamble_loop F S D [imp] ([], [], [])") auto
  have s2: "buildPreamble_loop F S D [imp] (p, a, l) = (p @ p1, a @ a1, l @ l1)"
    using loop_step_acc [of F S D imp p a l] by (simp only: s1 fst_conv snd_conv)
  have "buildPreamble_loop F S D (imp # rest) (p, a, l) =
        buildPreamble_loop F S D rest (p @ p1, a @ a1, l @ l1)"
    by (subst loop_single) (simp only: s2)
  moreover have "buildPreamble_loop F S D (imp # rest) ([], [], []) =
        buildPreamble_loop F S D rest (p1, a1, l1)"
    by (subst loop_single) (simp only: s1)
  ultimately show ?case
    by (simp add: Cons.IH [of "p @ p1" "a @ a1" "l @ l1"] Cons.IH [of p1 a1 l1])
qed

lemma buildPreamble_append:
  assumes "Imports rule = xs @ ys"
  shows "buildPreamble rule F S D =
     (fst (buildPreamble (rule\<lparr>Imports := xs\<rparr>) F S D) @
        fst (buildPreamble (rule\<lparr>Imports := ys\<rparr>) F S D),
      fst (snd (buildPreamble (rule\<lparr>Imports := xs\<rparr>) F S D)) @
        fst (snd (buildPreamble (rule\<lparr>Imports := ys\<rparr>) F S D)),
      snd (snd (buildPreamble (rule\<lparr>Imports := xs\<rparr>) F S D)) @
        snd (snd (buildPreamble (rule\<lparr>Imports := ys\<rparr>) F S D)))"
proof -
  obtain p a l where r: "buildPreamble_loop F S D xs ([], [], []) = (p, a, l)"
    by (cases "buildPreamble_loop F S D xs ([], [], [])") auto
  have "buildPreamble_loop F S D (xs @ ys) ([], [], []) =
        buildPreamble_loop F S D ys (p, a, l)"
    by (simp only: loop_append r)
  then show ?thesis
    by (simp add: buildPreamble_def assms r loop_acc [of F S D ys p a l])
qed

lemma buildPreamble_split3:
  assumes "Imports rule = pre @ [imp] @ post"
  shows "buildPreamble rule F S D =
     (fst (buildPreamble (rule\<lparr>Imports := pre\<rparr>) F S D) @
        fst (buildPreamble_loop F S D [imp] ([], [], [])) @
        fst (buildPreamble (rule\<lparr>Imports := post\<rparr>) F S D),
      fst (snd (buildPreamble (rule\<lparr>Imports := pre\<rparr>) F S D)) @
        fst (snd (buildPreamble_loop F S D [imp] ([], [], []))) @
        fst (snd (buildPreamble (rule\<lparr>Imports := post\<rparr>) F S D)),
      snd (snd (buildPreamble (rule\<lparr>Imports := pre\<rparr>) F S D)) @
        snd (snd (buildPreamble_loop F S D [imp] ([], [], []))) @
        snd (snd (buildPreamble (rule\<lparr>Imports := post\<rparr>) F S D)))"
proof -
  have a: "Imports (rule\<lparr>Imports := [imp] @ post\<rparr>) = [imp] @ post" by simp
  have b: "buildPreamble (rule\<lparr>Imports := [imp]\<rparr>) F S D =
      buildPreamble_loop F S D [imp] ([], [], [])"
    by (simp add: buildPreamble_def)
  show ?thesis
    by (subst buildPreamble_append [OF assms], subst (1 2 3) buildPreamble_append [OF a])
       (simp add: b)
qed

lemma allowed_subset:
  "set (fst (snd (buildPreamble_loop F S D xs ([], [], [])))) \<subseteq>
     {i \<in> set xs. i \<notin> set D \<and> \<not> HasPrefix i ''fn:''}"
proof (induction xs)
  case Nil show ?case by simp
next
  case (Cons imp rest)
  obtain p1 a1 l1 where s1: "buildPreamble_loop F S D [imp] ([], [], []) = (p1, a1, l1)"
    by (cases "buildPreamble_loop F S D [imp] ([], [], [])") auto
  have a1: "set a1 \<subseteq> {i. i = imp \<and> i \<notin> set D \<and> \<not> HasPrefix i ''fn:''}"
    using s1 by (auto simp: Let_def split: option.splits if_splits)
  have "buildPreamble_loop F S D (imp # rest) ([], [], []) =
        buildPreamble_loop F S D rest (p1, a1, l1)"
    by (subst loop_single) (simp only: s1)
  then have "fst (snd (buildPreamble_loop F S D (imp # rest) ([], [], []))) =
     a1 @ fst (snd (buildPreamble_loop F S D rest ([], [], [])))"
    by (simp add: loop_acc [of F S D rest p1 a1 l1])
  then show ?case using a1 Cons.IH by auto
qed

lemma step_fn_present:
  "fns key = Some lit \<Longrightarrow>
   buildPreamble_loop fns S D [''fn:'' @ key] ([], [], []) =
     ([newline] @ ''fn_'' @ ReplaceAll key (CHR ''.'') (CHR ''_'') @ '' := '' @ lit, [], [])"
  by (simp add: HasPrefix_def TrimPrefix_def Let_def)

lemma step_fn_absent:
  "fns key = None \<Longrightarrow>
   buildPreamble_loop fns S D [''fn:'' @ key] ([], [], []) =
     ([], [], [(LError, ''Function not found'', [AStr ''function'', AStr key])])"
  by (simp add: HasPrefix_def TrimPrefix_def Let_def)

lemma step_denied:
  "imp \<in> set D \<Longrightarrow> \<not> HasPrefix imp ''fn:'' \<Longrightarrow>
   buildPreamble_loop fns S D [imp] ([], [], []) =
     ([], [], [(LWarn, ''Import denied'', [AStr ''import'', AStr imp])])"
  by simp

text \<open>
  Claim C7.  An import that names a capability (not a function reference) and is on the
  deny list never reaches the allowed module list, whether or not it is a recognized
  standard or extra name; every occurrence contributes nothing to the preamble and nothing
  to the allowed modules, and a warning \<open>Import denied\<close> naming the import is logged.
\<close>

theorem denied_import_excluded:
  assumes "imp \<in> set denyList" and "\<not> HasPrefix imp ''fn:''" and "imp \<in> set (Imports rule)"
  shows "imp \<notin> set (fst (snd (buildPreamble rule fns stdNames denyList))) \<and>
         (LWarn, ''Import denied'', [AStr ''import'', AStr imp])
            \<in> set (snd (snd (buildPreamble rule fns stdNames denyList))) \<and>
         (\<forall>pre post. Imports rule = pre @ [imp] @ post \<longrightarrow>
            buildPreamble rule fns stdNames denyList =
              (fst (buildPreamble (rule\<lparr>Imports := pre\<rparr>) fns stdNames denyList) @
                 fst (buildPreamble (rule\<lparr>Imports := post\<rparr>) fns stdNames denyList),
               fst (snd (buildPreamble (rule\<lparr>Imports := pre\<rparr>) fns stdNames denyList)) @
                 fst (snd (buildPreamble (rule\<lparr>Imports := post\<rparr>) fns stdNames denyList)),
               snd (snd (buildPreamble (rule\<lparr>Imports := pre\<rparr>) fns stdNames denyList)) @
                 [(LWarn, ''Import denied'', [AStr ''import'', AStr imp])] @
                 snd (snd (buildPreamble (rule\<lparr>Imports := post\<rparr>) fns stdNames denyList))))"
proof -
  have split: "buildPreamble rule fns stdNames denyList =
              (fst (buildPreamble (rule\<lparr>Imports := pre\<rparr>) fns stdNames denyList) @
                 fst (buildPreamble (rule\<lparr>Imports := post\<rparr>) fns stdNames denyList),
               fst (snd (buildPreamble (rule\<lparr>Imports := pre\<rparr>) fns stdNames denyList)) @
                 fst (snd (buildPreamble (rule\<lparr>Imports := post\<rparr>) fns stdNames denyList)),
               snd (snd (buildPreamble (rule\<lparr>Imports := pre\<rparr>) fns stdNames denyList)) @
                 [(LWarn, ''Import denied'', [AStr ''import'', AStr imp])] @
                 snd (snd (buildPreamble (rule\<lparr>Imports := post\<rparr>) fns stdNames denyList)))"
    if "Imports rule = pre @ [imp] @ post" for pre post
    unfolding buildPreamble_split3 [OF that]
      step_denied [of imp denyList fns stdNames, OF assms(1,2)]
    by simp
  have 1: "imp \<notin> set (fst (snd (buildPreamble rule fns stdNames denyList)))"
    using allowed_subset [of fns stdNames denyList "Imports rule"] assms(1)
    by (auto simp: buildPreamble_def)
  obtain pre post where "Imports rule = pre @ [imp] @ post"
    using assms(3) by (auto dest: split_list)
  from split [OF this]
  have 2: "(LWarn, ''Import denied'', [AStr ''import'', AStr imp])
            \<in> set (snd (snd (buildPreamble rule fns stdNames denyList)))"
    by simp
  from 1 2 split show ?thesis by blast
qed

theorem denied_import_excluded_witness:
  "''os'' \<in> set [''os''] \<and> \<not> HasPrefix ''os'' ''fn:'' \<and>
   ''os'' \<in> set (AllModuleNames demoLib) \<and>
   ''os'' \<in> set (Imports \<lparr>Imports = [''math'', ''os'', ''log''], Code = []\<rparr>) \<and>
   ''os'' \<notin> set (fst (snd (buildPreamble \<lparr>Imports = [''math'', ''os'', ''log''], Code = []\<rparr>
       Map.empty (AllModuleNames demoLib) [''os'']))) \<and>
   (LWarn, ''Import denied'', [AStr ''import'', AStr ''os''])
     \<in> set (snd (snd (buildPreamble \<lparr>Imports = [''math'', ''os'', ''log''], Code = []\<rparr>
       Map.empty (AllModuleNames demoLib) [''os''])))"
proof -
  have h1: "''os'' \<in> set [''os'']" by simp
  have h2: "\<not> HasPrefix ''os'' ''fn:''" by (simp add: HasPrefix_def)
  have h3: "''os'' \<in> set (Imports \<lparr>Imports = [''math'', ''os'', ''log''], Code = []\<rparr>)" by simp
  have h4: "''os'' \<in> set (AllModuleNames demoLib)" by (simp add: demoLib_def)
  from denied_import_excluded [OF h1 h2 h3, of Map.empty "AllModuleNames demoLib"] h1 h2 h3 h4
  show ?thesis by blast
qed

text \<open>
  Claim C8.  An import \<open>fn:key\<close> whose key is in the function table adds to the preamble,
  at its place among the other imports, a line break followed by the identifier \<open>fn_\<close> and
  the key with every dot replaced by an underscore, the text \<open> := \<close> and the literal
  snippet; so the preamble contains that binding.  When the key is absent, the import adds
  nothing to the preamble and to the allowed modules, a record \<open>Function not found\<close> naming
  the key is logged (at error level), and the imports before and after it are resolved as
  they would be without it.
\<close>

theorem fn_import_resolution:
  assumes "Imports rule = pre @ [''fn:'' @ key] @ post"
  shows "(\<forall>lit. fns key = Some lit \<longrightarrow>
            buildPreamble rule fns S D =
              (fst (buildPreamble (rule\<lparr>Imports := pre\<rparr>) fns S D) @
                 ([newline] @ ''fn_'' @ ReplaceAll key (CHR ''.'') (CHR ''_'') @ '' := '' @ lit) @
                 fst (buildPreamble (rule\<lparr>Imports := post\<rparr>) fns S D),
               fst (snd (buildPreamble (rule\<lparr>Imports := pre\<rparr>) fns S D)) @
                 fst (snd (buildPreamble (rule\<lparr>Imports := post\<rparr>) fns S D)),
               snd (snd (buildPreamble (rule\<lparr>Imports := pre\<rparr>) fns S D)) @
                 snd (snd (buildPreamble (rule\<lparr>Imports := post\<rparr>) fns S D))) \<and>
            sublist ([newline] @ ''fn_'' @ ReplaceAll key (CHR ''.'') (CHR ''_'') @ '' := '' @ lit)
              (fst (buildPreamble rule fns S D))) \<and>
         (fns key = None \<longrightarrow>
            buildPreamble rule fns S D =
              (fst (buildPreamble (rule\<lparr>Imports := pre\<rparr>) fns S D) @
                 fst (buildPreamble (rule\<lparr>Imports := post\<rparr>) fns S D),
               fst (snd (buildPreamble (rule\<lparr>Imports := pre\<rparr>) fns S D)) @
                 fst (snd (buildPreamble (rule\<lparr>Imports := post\<rparr>) fns S D)),
               snd (snd (buildPreamble (rule\<lparr>Imports := pre\<rparr>) fns S D)) @
                 [(LError, ''Function not found'', [AStr ''function'', AStr key])] @
                 snd (snd (buildPreamble (rule\<lparr>Imports := post\<rparr>) fns S D))))"
proof (intro conjI allI impI)
  fix lit assume lit: "fns key = Some lit"
  show eq: "buildPreamble rule fns S D =
              (fst (buildPreamble (rule\<lparr>Imports := pre\<rparr>) fns S D) @
                 ([newline] @ ''fn_'' @ ReplaceAll key (CHR ''.'') (CHR ''_'') @ '' := '' @ lit) @
                 fst (buildPreamble (rule\<lparr>Imports := post\<rparr>) fns S D),
               fst (snd (buildPreamble (rule\<lparr>Imports := pre\<rparr>) fns S D)) @
                 fst (snd (buildPreamble (rule\<lparr>Imports := post\<rparr>) fns S D)),
               snd (snd (buildPreamble (rule\<lparr>Imports := pre\<rparr>) fns S D)) @
                 snd (snd (buildPreamble (rule\<lparr>Imports := post\<rparr>) fns S D)))"
    unfolding buildPreamble_split3 [OF assms] step_fn_present [of fns key lit S D, OF lit]
    by simp
  show "sublist ([newline] @ ''fn_'' @ ReplaceAll key (CHR ''.'') (CHR ''_'') @ '' := '' @ lit)
              (fst (buildPreamble rule fns S D))"
    by (subst eq) (simp only: fst_conv sublist_appendI)
next
  assume none: "fns key = None"
  show "buildPreamble rule fns S D =
              (fst (buildPreamble (rule\<lparr>Imports := pre\<rparr>) fns S D) @
                 fst (buildPreamble (rule\<lparr>Imports := post\<rparr>) fns S D),
               fst (snd (buildPreamble (rule\<lparr>Imports := pre\<rparr>) fns S D)) @
                 fst (snd (buildPreamble (rule\<lparr>Imports := post\<rparr>) fns S D)),
               snd (snd (buildPreamble (rule\<lparr>Imports := pre\<rparr>) fns S D)) @
                 [(LError, ''Function not found'', [AStr ''function'', AStr key])] @
                 snd (snd (buildPreamble (rule\<lparr>Imports := post\<rparr>) fns S D)))"
    unfolding buildPreamble_split3 [OF assms] step_fn_absent [of fns key S D, OF none]
    by simp
qed

theorem fn_import_resolution_witness:
  "Imports \<lparr>Imports = [''fn:parseDate'', ''fn:missing''], Code = []\<rparr> =
     [] @ [''fn:'' @ ''parseDate''] @ [''fn:missing''] \<and>
   [''parseDate'' \<mapsto> ''func(x){return x}''] ''parseDate'' = Some ''func(x){return x}'' \<and>
   sublist (newline # ''fn_parseDate := func(x){return x}'')
     (fst (buildPreamble \<lparr>Imports = [''fn:parseDate'', ''fn:missing''], Code = []\<rparr>
        [''parseDate'' \<mapsto> ''func(x){return x}''] [] [])) \<and>
   Imports \<lparr>Imports = [''fn:parseDate'', ''fn:missing''], Code = []\<rparr> =
     [''fn:parseDate''] @ [''fn:'' @ ''missing''] @ [] \<and>
   [''parseDate'' \<mapsto> ''func(x){return x}''] ''missing'' = None \<and>
   buildPreamble \<lparr>Imports = [''fn:parseDate'', ''fn:missing''], Code = []\<rparr>
        [''parseDate'' \<mapsto> ''func(x){return x}''] [] [] =
     (newline # ''fn_parseDate := func(x){return x}'', [],
      [(LError, ''Function not found'', [AStr ''function'', AStr ''missing''])])"
proof -
  let ?r = "\<lparr>Imports = [''fn:parseDate'', ''fn:missing''], Code = []\<rparr>"
  let ?F = "[''parseDate'' \<mapsto> ''func(x){return x}'']"
  have h1: "Imports ?r = [] @ [''fn:'' @ ''parseDate''] @ [''fn:missing'']" by simp
  have h2: "?F ''parseDate'' = Some ''func(x){return x}''" by simp
  have h3: "Imports ?r = [''fn:parseDate''] @ [''fn:'' @ ''missing''] @ []" by simp
  have h4: "?F ''missing'' = None" by simp
  have "sublist ([newline] @ ''fn_'' @ ReplaceAll ''parseDate'' (CHR ''.'') (CHR ''_'') @ '' := '' @
           ''func(x){return x}'') (fst (buildPreamble ?r ?F [] []))"
    using fn_import_resolution [OF h1, of ?F "[]" "[]"] h2 by blast
  then have a: "sublist (newline # ''fn_parseDate := func(x){return x}'')
           (fst (buildPreamble ?r ?F [] []))"
    by (simp add: ReplaceAll_def)
  have b: "buildPreamble ?r ?F [] [] =
     (newline # ''fn_parseDate := func(x){return x}'', [],
      [(LError, ''Function not found'', [AStr ''function'', AStr ''missing''])])"
    by (simp add: buildPreamble_def HasPrefix_def TrimPrefix_def ReplaceAll_def)
  from h1 h2 h3 h4 a b show ?thesis by blast
qed

section \<open>Properties of the schema checks\<close>

lemma checkItems_good:
  "\<forall>v\<in>set good. \<exists>m. v = VMap m \<and> map_of m ''title'' \<noteq> None \<and> map_of m ''url'' \<noteq> None \<Longrightarrow>
   checkItems f i (good @ rest) = checkItems f (i + length good) rest"
proof (induction good arbitrary: i)
  case Nil show ?case by simp
next
  case (Cons v good)
  then obtain m where v: "v = VMap m" "map_of m ''title'' \<noteq> None" "map_of m ''url'' \<noteq> None"
    by auto
  have "checkItems f i ((v # good) @ rest) = checkItems f (Suc i) (good @ rest)"
    using v by auto
  also have "\<dots> = checkItems f (Suc i + length good) rest"
    using Cons.prems by (intro Cons.IH) simp
  finally show ?case by simp
qed

lemma collectMaps_good:
  "\<forall>v\<in>set good. \<exists>m. v = VMap m \<and> map_of m ''title'' \<noteq> None \<and> map_of m ''url'' \<noteq> None \<Longrightarrow>
   collectMaps good = map MapOf good"
  by (induction good) (auto simp: MapOf_def)

lemma validateItems_cases:
  assumes good: "\<forall>v\<in>set good. \<exists>m. v = VMap m \<and> map_of m ''title'' \<noteq> None \<and> map_of m ''url'' \<noteq> None"
  shows "validateItems f good = Inr (map MapOf good)"
    and "(\<forall>m. bad \<noteq> VMap m) \<Longrightarrow>
           validateItems f (good @ bad # rest) = Inl (ItemNotMap f (length good))"
    and "map_of m ''title'' = None \<Longrightarrow>
           validateItems f (good @ VMap m # rest) = Inl (ItemMissingKey f (length good) ''title'')"
    and "map_of m ''title'' \<noteq> None \<Longrightarrow> map_of m ''url'' = None \<Longrightarrow>
           validateItems f (good @ VMap m # rest) = Inl (ItemMissingKey f (length good) ''url'')"
proof -
  show "validateItems f good = Inr (map MapOf good)"
    using checkItems_good [OF good, of f 0 "[]"] collectMaps_good [OF good]
    by (simp add: validateItems_def)
  show "validateItems f (good @ bad # rest) = Inl (ItemNotMap f (length good))"
    if "\<forall>m. bad \<noteq> VMap m"
    using that by (cases bad) (simp_all add: validateItems_def checkItems_good [OF good])
  show "validateItems f (good @ VMap m # rest) = Inl (ItemMissingKey f (length good) ''title'')"
    if "map_of m ''title'' = None"
    using that by (simp add: validateItems_def checkItems_good [OF good])
  show "validateItems f (good @ VMap m # rest) = Inl (ItemMissingKey f (length good) ''url'')"
    if "map_of m ''title'' \<noteq> None" "map_of m ''url'' = None"
    using that by (auto simp: validateItems_def checkItems_good [OF good])
qed

lemma checkInfo_skip:
  "\<forall>j\<in>set pre. map_of info j \<noteq> None \<and> j \<noteq> ''genres'' \<Longrightarrow>
   checkInfo info (pre @ rest) = checkInfo info rest"
  by (induction pre) auto

lemma infoRequired_pre:
  assumes "infoRequired = pre @ k # post"
  shows "''genres'' \<notin> set pre"
proof
  assume "''genres'' \<in> set pre"
  moreover have "distinct (pre @ k # post)" "last (pre @ k # post) = ''genres''"
    unfolding assms [symmetric] by (simp_all add: infoRequired_def)
  ultimately show False
    by (cases post rule: rev_cases) auto
qed

lemma validateInfo_first_missing:
  assumes "infoRequired = pre @ k # post" "\<forall>j\<in>set pre. map_of info j \<noteq> None"
    "map_of info k = None"
  shows "validateInfo info = Inl (MissingKey ''NovelInfoRule'' k)"
proof -
  have "\<forall>j\<in>set pre. map_of info j \<noteq> None \<and> j \<noteq> ''genres''"
    using assms(2) infoRequired_pre [OF assms(1)] by auto
  then have "checkInfo info (pre @ k # post) = checkInfo info (k # post)"
    by (rule checkInfo_skip)
  then show ?thesis
    by (simp add: validateInfo_def assms(1,3))
qed

lemma validateInfo_present:
  assumes "\<forall>k\<in>set infoRequired. map_of info k \<noteq> None"
  shows "validateInfo info =
     (case map_of info ''genres'' of Some (VArr g) \<Rightarrow> Inr info | _ \<Rightarrow> Inl GenresNotArray)"
proof -
  have "\<forall>j\<in>set (butlast infoRequired). map_of info j \<noteq> None \<and> j \<noteq> ''genres''"
    using assms by (simp add: infoRequired_def)
  then have "checkInfo info (butlast infoRequired @ [''genres'']) = checkInfo info [''genres'']"
    by (rule checkInfo_skip)
  moreover have "butlast infoRequired @ [''genres''] = infoRequired"
    by (simp add: infoRequired_def)
  moreover obtain v where "map_of info ''genres'' = Some v"
    using assms by (auto simp: infoRequired_def)
  ultimately show ?thesis
    by (cases v) (simp_all add: validateInfo_def)
qed

text \<open>
  Claim C5.  The item-info check fails with a missing-key error naming the first of
  title, cover, author, description, status, genres that the record lacks; so it fails
  with a missing-key error whenever one of the six is absent.  When all six are present
  it fails with the error that \<open>genres\<close> is not an array unless \<open>genres\<close> is a sequence,
  and then it returns the record unchanged.
\<close>

theorem info_validation:
  "(\<forall>pre k post. infoRequired = pre @ k # post \<and> (\<forall>j\<in>set pre. map_of info j \<noteq> None) \<and>
       map_of info k = None \<longrightarrow> validateInfo info = Inl (MissingKey ''NovelInfoRule'' k)) \<and>
   ((\<exists>k\<in>set infoRequired. map_of info k = None) \<longrightarrow>
      (\<exists>k\<in>set infoRequired. map_of info k = None \<and>
         validateInfo info = Inl (MissingKey ''NovelInfoRule'' k))) \<and>
   ((\<forall>k\<in>set infoRequired. map_of info k \<noteq> None) \<and> (\<forall>g. map_of info ''genres'' \<noteq> Some (VArr g)) \<longrightarrow>
      validateInfo info = Inl GenresNotArray) \<and>
   ((\<forall>k\<in>set infoRequired. map_of info k \<noteq> None) \<and> (\<exists>g. map_of info ''genres'' = Some (VArr g)) \<longrightarrow>
      validateInfo info = Inr info)"
proof (intro conjI allI impI)
  fix pre k post
  assume "infoRequired = pre @ k # post \<and> (\<forall>j\<in>set pre. map_of info j \<noteq> None) \<and>
       map_of info k = None"
  then show "validateInfo info = Inl (MissingKey ''NovelInfoRule'' k)"
    using validateInfo_first_missing by blast
next
  assume "\<exists>k\<in>set infoRequired. map_of info k = None"
  then obtain pre k post where d: "infoRequired = pre @ k # post" "map_of info k = None"
    "\<forall>j\<in>set pre. map_of info j \<noteq> None"
    using split_list_first_prop [of infoRequired "\<lambda>k. map_of info k = None"] by blast
  have "k \<in> set infoRequired"
    unfolding d(1) by simp
  moreover have "validateInfo info = Inl (MissingKey ''NovelInfoRule'' k)"
    using d by (intro validateInfo_first_missing [of pre k post info]) auto
  ultimately show "\<exists>k\<in>set infoRequired. map_of info k = None \<and>
         validateInfo info = Inl (MissingKey ''NovelInfoRule'' k)"
    using d(2) by blast
next
  assume a: "(\<forall>k\<in>set infoRequired. map_of info k \<noteq> None) \<and> (\<forall>g. map_of info ''genres'' \<noteq> Some (VArr g))"
  then show "validateInfo info = Inl GenresNotArray"
    using validateInfo_present [of info] by (auto split: option.splits val.splits)
next
  assume a: "(\<forall>k\<in>set infoRequired. map_of info k \<noteq> None) \<and> (\<exists>g. map_of info ''genres'' = Some (VArr g))"
  then show "validateInfo info = Inr info"
    using validateInfo_present [of info] by (auto split: option.splits val.splits)
qed

theorem info_validation_witness:
  "validateInfo [(''title'', VStr ''t''), (''cover'', VStr ''c''), (''author'', VStr ''a''),
      (''description'', VStr ''d''), (''status'', VStr ''s'')] =
     Inl (MissingKey ''NovelInfoRule'' ''genres'') \<and>
   validateInfo [(''title'', VStr ''t''), (''cover'', VStr ''c''), (''author'', VStr ''a''),
      (''description'', VStr ''d''), (''status'', VStr ''s''), (''genres'', VStr ''fantasy'')] =
     Inl GenresNotArray \<and>
   validateInfo [(''title'', VStr ''t''), (''cover'', VStr ''c''), (''author'', VStr ''a''),
      (''description'', VStr ''d''), (''status'', VStr ''s''), (''genres'', VArr [VStr ''fantasy''])] =
     Inr [(''title'', VStr ''t''), (''cover'', VStr ''c''), (''author'', VStr ''a''),
      (''description'', VStr ''d''), (''status'', VStr ''s''), (''genres'', VArr [VStr ''fantasy''])]"
proof -
  let ?five = "[(''title'', VStr ''t''), (''cover'', VStr ''c''), (''author'', VStr ''a''),
      (''description'', VStr ''d''), (''status'', VStr ''s'')]"
  have "infoRequired = [''title'', ''cover'', ''author'', ''description'', ''status''] @ ''genres'' # [] \<and>
        (\<forall>j\<in>set [''title'', ''cover'', ''author'', ''description'', ''status'']. map_of ?five j \<noteq> None) \<and>
        map_of ?five ''genres'' = None"
    by (simp add: infoRequired_def)
  then have a: "validateInfo ?five = Inl (MissingKey ''NovelInfoRule'' ''genres'')"
    using info_validation [of ?five] by blast
  have "(\<forall>k\<in>set infoRequired. map_of (?five @ [(''genres'', VStr ''fantasy'')]) k \<noteq> None) \<and>
        (\<forall>g. map_of (?five @ [(''genres'', VStr ''fantasy'')]) ''genres'' \<noteq> Some (VArr g))"
    by (simp add: infoRequired_def)
  then have b: "validateInfo (?five @ [(''genres'', VStr ''fantasy'')]) = Inl GenresNotArray"
    using info_validation [of "?five @ [(''genres'', VStr ''fantasy'')]"] by blast
  have "(\<forall>k\<in>set infoRequired. map_of (?five @ [(''genres'', VArr [VStr ''fantasy''])]) k \<noteq> None) \<and>
        (\<exists>g. map_of (?five @ [(''genres'', VArr [VStr ''fantasy''])]) ''genres'' = Some (VArr g))"
    by (simp add: infoRequired_def)
  then have c: "validateInfo (?five @ [(''genres'', VArr [VStr ''fantasy''])]) =
      Inr (?five @ [(''genres'', VArr [VStr ''fantasy''])])"
    using info_validation [of "?five @ [(''genres'', VArr [VStr ''fantasy''])]"] by blast
  from a b c show ?thesis by simp
qed

text \<open>
  Claim C2, as the code has it.  The check of a search or chapter-list result walks the
  sequence in order.  An element that is not a record is an error that carries its index;
  so is a record that lacks \<open>title\<close>, or has \<open>title\<close> and lacks \<open>url\<close>, with the missing
  key.  When every element is a record with both keys, all of them are returned, in order.
\<close>

theorem item_validation:
  "(\<forall>v\<in>set good. \<exists>m. v = VMap m \<and> map_of m ''title'' \<noteq> None \<and> map_of m ''url'' \<noteq> None) \<longrightarrow>
     validateItems f good = Inr (map MapOf good) \<and>
     ((\<forall>m. bad \<noteq> VMap m) \<longrightarrow>
        validateItems f (good @ bad # rest) = Inl (ItemNotMap f (length good))) \<and>
     (map_of m ''title'' = None \<longrightarrow>
        validateItems f (good @ VMap m # rest) = Inl (ItemMissingKey f (length good) ''title'')) \<and>
     (map_of m ''title'' \<noteq> None \<and> map_of m ''url'' = None \<longrightarrow>
        validateItems f (good @ VMap m # rest) = Inl (ItemMissingKey f (length good) ''url''))"
  using validateItems_cases [where good = good and f = f] by blast

theorem item_validation_witness:
  "validateItems ''SearchRule'' [VMap [(''title'', VStr ''A''), (''url'', VStr ''u1'')]] =
     Inr [[(''title'', VStr ''A''), (''url'', VStr ''u1'')]] \<and>
   validateItems ''SearchRule'' [VMap [(''title'', VStr ''A''), (''url'', VStr ''u1'')], VInt 42] =
     Inl (ItemNotMap ''SearchRule'' 1) \<and>
   validateItems ''ChapterListRule''
       [VMap [(''title'', VStr ''A''), (''url'', VStr ''u1'')], VMap [(''foo'', VStr ''bar'')]] =
     Inl (ItemMissingKey ''ChapterListRule'' 1 ''title'') \<and>
   validateItems ''ChapterListRule''
       [VMap [(''title'', VStr ''A''), (''url'', VStr ''u1'')], VMap [(''title'', VStr ''B'')]] =
     Inl (ItemMissingKey ''ChapterListRule'' 1 ''url'')"
proof -
  let ?rec = "VMap [(''title'', VStr ''A''), (''url'', VStr ''u1'')]"
  have good: "\<forall>v\<in>set [?rec]. \<exists>m. v = VMap m \<and> map_of m ''title'' \<noteq> None \<and> map_of m ''url'' \<noteq> None"
    by simp
  have h1: "\<forall>m. VInt 42 \<noteq> VMap m" by simp
  have h2: "map_of [(''foo'', VStr ''bar'')] ''title'' = None" by simp
  have h3: "map_of [(''title'', VStr ''B'')] ''title'' \<noteq> None \<and>
            map_of [(''title'', VStr ''B'')] ''url'' = None" by simp
  have a: "validateItems ''SearchRule'' [?rec] = Inr (map MapOf [?rec])"
    using item_validation [of "[?rec]" "''SearchRule''"] good by blast
  have b: "validateItems ''SearchRule'' ([?rec] @ VInt 42 # []) =
        Inl (ItemNotMap ''SearchRule'' (length [?rec]))"
    using item_validation [of "[?rec]" "''SearchRule''" "VInt 42" "[]"] good h1 by blast
  have c: "validateItems ''ChapterListRule'' ([?rec] @ VMap [(''foo'', VStr ''bar'')] # []) =
        Inl (ItemMissingKey ''ChapterListRule'' (length [?rec]) ''title'')"
    using item_validation [of "[?rec]" "''ChapterListRule''" _ "[]" "[(''foo'', VStr ''bar'')]"]
      good h2 by blast
  have d: "validateItems ''ChapterListRule'' ([?rec] @ VMap [(''title'', VStr ''B'')] # []) =
        Inl (ItemMissingKey ''ChapterListRule'' (length [?rec]) ''url'')"
    using item_validation [of "[?rec]" "''ChapterListRule''" _ "[]" "[(''title'', VStr ''B'')]"]
      good h3 by blast
  from a b c d show ?thesis by (simp add: MapOf_def)
qed

text \<open>
  Claim C2 as the specification states it fails: a sequence holding the record
  \<open>{title: A, url: u1}\<close> and the number 42 is not reduced to the record; both the search
  and the chapter-list entry point return the error that item 1 is not a map.
\<close>

theorem non_record_item_counterexample:
  "validateItems ''SearchRule'' [VMap [(''title'', VStr ''A''), (''url'', VStr ''u1'')], VInt 42] \<noteq>
     Inr [[(''title'', VStr ''A''), (''url'', VStr ''u1'')]] \<and>
   validateItems ''ChapterListRule'' [VMap [(''title'', VStr ''A''), (''url'', VStr ''u1'')], VInt 42] \<noteq>
     Inr [[(''title'', VStr ''A''), (''url'', VStr ''u1'')]] \<and>
   fst (SearchRule demoLib (demoEngine ''search'' ''mixed'') []) =
     Inl (ItemNotMap ''SearchRule'' 1) \<and>
   fst (ChapterListRule demoLib (demoEngine ''chapter-list'' ''mixed'') []) =
     Inl (ItemNotMap ''ChapterListRule'' 1)"
proof -
  have a: "fst (SearchRule demoLib (demoEngine ''search'' ''mixed'') []) =
      Inl (ItemNotMap ''SearchRule'' 1)"
    by (simp add: SearchRule_def demo_defs engine_defs)
  have b: "fst (ChapterListRule demoLib (demoEngine ''chapter-list'' ''mixed'') []) =
      Inl (ItemNotMap ''ChapterListRule'' 1)"
    by (simp add: ChapterListRule_def demo_defs engine_defs)
  show ?thesis
    using a b by (simp add: validateItems_def)
qed

section \<open>Properties of the engine\<close>

lemma invalidate_fields [simp]:
  "Env (invalidateOnChange lib r v e) = Env e"
  "Rules (invalidateOnChange lib r v e) = Rules e"
  "Functions (invalidateOnChange lib r v e) = Functions e"
  "Logger (invalidateOnChange lib r v e) = Logger e"
  "denyLibs (invalidateOnChange lib r v e) = denyLibs e"
  "CacheEnabled (invalidateOnChange lib r v e) = CacheEnabled e"
  "Trace (invalidateOnChange lib r v e) = Trace e"
  by (simp_all add: invalidateOnChange_def Let_def)

lemma invalidate_lastInputs:
  "CacheEnabled e \<Longrightarrow>
   lastInputs (invalidateOnChange lib r v e) r = Some (serializeEnv (GoScalar lib) v)"
  by (simp add: invalidateOnChange_def Let_def split: option.split)

lemma invalidate_lastInputs_other:
  "r' \<noteq> r \<Longrightarrow> lastInputs (invalidateOnChange lib r v e) r' = lastInputs e r'"
  by (simp add: invalidateOnChange_def Let_def)

lemma invalidate_same:
  "lastInputs e r = Some (serializeEnv (GoScalar lib) v) \<Longrightarrow> invalidateOnChange lib r v e = e"
  by (simp add: invalidateOnChange_def Let_def)

lemma invalidate_changed:
  "CacheEnabled e \<Longrightarrow> lastInputs e r \<noteq> Some (serializeEnv (GoScalar lib) v) \<Longrightarrow>
   compiledCache (invalidateOnChange lib r v e) r = None"
  by (auto simp: invalidateOnChange_def Let_def split: option.split)

lemma AddEnvVar_fields [simp]:
  "Env (AddEnvVar k x e) = AList.update k x (Env e)"
  "Rules (AddEnvVar k x e) = Rules e"
  "Functions (AddEnvVar k x e) = Functions e"
  "Logger (AddEnvVar k x e) = Logger e"
  "denyLibs (AddEnvVar k x e) = denyLibs e"
  "CacheEnabled (AddEnvVar k x e) = CacheEnabled e"
  "Trace (AddEnvVar k x e) = Trace e"
  "compiledCache (AddEnvVar k x e) = compiledCache e"
  "lastInputs (AddEnvVar k x e) = lastInputs e"
  by (simp_all add: AddEnvVar_def)

lemma logTo_fields [simp]:
  "Env (logTo l e) = Env e"
  "Rules (logTo l e) = Rules e"
  "Functions (logTo l e) = Functions e"
  "Logger (logTo l e) = Logger e @ l"
  "denyLibs (logTo l e) = denyLibs e"
  "CacheEnabled (logTo l e) = CacheEnabled e"
  "Trace (logTo l e) = Trace e"
  "compiledCache (logTo l e) = compiledCache e"
  "lastInputs (logTo l e) = lastInputs e"
  by (simp_all add: logTo_def)

lemma RunRule_keeps [simp]:
  "Env (snd (RunRule lib e r)) = Env e"
  "Rules (snd (RunRule lib e r)) = Rules e"
  "Functions (snd (RunRule lib e r)) = Functions e"
  "denyLibs (snd (RunRule lib e r)) = denyLibs e"
  "CacheEnabled (snd (RunRule lib e r)) = CacheEnabled e"
  "lastInputs (snd (RunRule lib e r)) = lastInputs e"
  by (simp_all add: RunRule_def Let_def split: option.split sum.split)

lemma RunRule_hit:
  assumes "CacheEnabled e" "compiledCache e r = Some c"
  shows "fst (RunRule lib e r) = Inr (snd (Run lib c))"
    and "Trace (snd (RunRule lib e r)) = Trace e @ [EvRun r]"
    and "compiledCache (snd (RunRule lib e r)) = (compiledCache e)(r \<mapsto> snd (Run lib c))"
  using assms by (simp_all add: RunRule_def Let_def)

lemma RunRule_not_found:
  assumes "\<not> CacheEnabled e \<or> compiledCache e r = None" "Rules e r = None"
  shows "fst (RunRule lib e r) = Inl (RuleNotFound r)"
    and "Trace (snd (RunRule lib e r)) = Trace e"
    and "compiledCache (snd (RunRule lib e r)) = compiledCache e"
  using assms by (auto simp: RunRule_def Let_def)

lemma RunRule_compile_error:
  assumes "\<not> CacheEnabled e \<or> compiledCache e r = None" "Rules e r = Some rule"
    "Compile lib
       (fst (buildPreamble rule (Functions e) (AllModuleNames lib) (denyLibs e)) @ [newline] @ Code rule)
       (fst (snd (buildPreamble rule (Functions e) (AllModuleNames lib) (denyLibs e))))
       (createEnvVariable (Env e)) = Inl err"
  shows "fst (RunRule lib e r) = Inl (CompileError r err)"
    and "Trace (snd (RunRule lib e r)) = Trace e @ [EvCompile r]"
    and "compiledCache (snd (RunRule lib e r)) = compiledCache e"
  using assms by (auto simp: RunRule_def Let_def)

lemma RunRule_fresh:
  assumes "\<not> CacheEnabled e \<or> compiledCache e r = None" "Rules e r = Some rule"
    "Compile lib
       (fst (buildPreamble rule (Functions e) (AllModuleNames lib) (denyLibs e)) @ [newline] @ Code rule)
       (fst (snd (buildPreamble rule (Functions e) (AllModuleNames lib) (denyLibs e))))
       (createEnvVariable (Env e)) = Inr c"
  shows "fst (RunRule lib e r) =
           (case fst (Run lib c) of Some err \<Rightarrow> Inl (RuntimeError r err)
            | None \<Rightarrow> Inr (snd (Run lib c)))"
    and "Trace (snd (RunRule lib e r)) = Trace e @ [EvCompile r, EvRun r]"
    and "compiledCache (snd (RunRule lib e r)) =
           (if CacheEnabled e then (compiledCache e)(r \<mapsto> snd (Run lib c)) else compiledCache e)"
  using assms by (auto simp: RunRule_def Let_def split: option.split)

text \<open>What a successful or run-failed result says about the path taken.\<close>

lemma RunRule_miss_outcome:
  assumes miss: "\<not> CacheEnabled e \<or> compiledCache e r = None"
  shows "(\<exists>c. fst (RunRule lib e r) = Inr c) \<or> (\<exists>err. fst (RunRule lib e r) = Inl (RuntimeError r' err)) \<Longrightarrow>
         Trace (snd (RunRule lib e r)) = Trace e @ [EvCompile r, EvRun r] \<and>
         (CacheEnabled e \<longrightarrow> compiledCache (snd (RunRule lib e r)) r \<noteq> None)"
proof -
  have m: "(if CacheEnabled e then compiledCache e r else None) = None"
    using miss by auto
  show "(\<exists>c. fst (RunRule lib e r) = Inr c) \<or> (\<exists>err. fst (RunRule lib e r) = Inl (RuntimeError r' err)) \<Longrightarrow>
         Trace (snd (RunRule lib e r)) = Trace e @ [EvCompile r, EvRun r] \<and>
         (CacheEnabled e \<longrightarrow> compiledCache (snd (RunRule lib e r)) r \<noteq> None)"
    by (auto simp: RunRule_def Let_def m split: option.splits sum.splits)
qed

lemma RunRule_runtime_error_is_miss:
  "fst (RunRule lib e r) = Inl (RuntimeError r' err) \<Longrightarrow>
   \<not> CacheEnabled e \<or> compiledCache e r = None"
  by (auto simp: RunRule_def Let_def split: option.splits sum.splits if_splits)


lemma RunRuleAndGetResult_fst:
  "fst (RunRuleAndGetResult lib e r) =
     (case fst (RunRule lib e r) of
        Inl err \<Rightarrow> Inl err
      | Inr c \<Rightarrow> (case GetVar lib c ''result'' of None \<Rightarrow> Inl MissingResult | Some v \<Rightarrow> Inr v))"
  by (simp add: RunRuleAndGetResult_def split: prod.split sum.split option.split)

lemma RunRuleAndGetResult_keeps [simp]:
  "Env (snd (RunRuleAndGetResult lib e r)) = Env e"
  "CacheEnabled (snd (RunRuleAndGetResult lib e r)) = CacheEnabled e"
  "lastInputs (snd (RunRuleAndGetResult lib e r)) = lastInputs e"
  "Trace (snd (RunRuleAndGetResult lib e r)) = Trace (snd (RunRule lib e r))"
  "compiledCache (snd (RunRuleAndGetResult lib e r)) = compiledCache (snd (RunRule lib e r))"
proof -
  obtain res e1 where rr: "RunRule lib e r = (res, e1)"
    by (cases "RunRule lib e r") auto
  have k: "Env e1 = Env e" "CacheEnabled e1 = CacheEnabled e" "lastInputs e1 = lastInputs e"
    using RunRule_keeps(1,5,6) [of lib e r] by (simp_all add: rr)
  show "Env (snd (RunRuleAndGetResult lib e r)) = Env e"
    "CacheEnabled (snd (RunRuleAndGetResult lib e r)) = CacheEnabled e"
    "lastInputs (snd (RunRuleAndGetResult lib e r)) = lastInputs e"
    "Trace (snd (RunRuleAndGetResult lib e r)) = Trace (snd (RunRule lib e r))"
    "compiledCache (snd (RunRuleAndGetResult lib e r)) = compiledCache (snd (RunRule lib e r))"
    by (simp_all add: RunRuleAndGetResult_def rr k split: sum.split option.split)
qed

lemma runCategory_keeps:
  "Env (snd (runCategory lib cat e v)) = AList.update (envKeyOf cat) (VMap v) (Env e)"
  "CacheEnabled (snd (runCategory lib cat e v)) = CacheEnabled e"
  "lastInputs (snd (runCategory lib cat e v)) =
     lastInputs (invalidateOnChange lib (ruleNameOf cat) v e)"
  "Trace (snd (runCategory lib cat e v)) =
     Trace (snd (RunRule lib (prepared lib cat v e) (ruleNameOf cat)))"
  "compiledCache (snd (runCategory lib cat e v)) =
     compiledCache (snd (RunRule lib (prepared lib cat v e) (ruleNameOf cat)))"
proof -
  obtain res e3 where rr:
    "RunRuleAndGetResult lib (prepared lib cat v e) (ruleNameOf cat) = (res, e3)"
    by (cases "RunRuleAndGetResult lib (prepared lib cat v e) (ruleNameOf cat)") auto
  have k: "Env e3 = AList.update (envKeyOf cat) (VMap v) (Env e)"
    "CacheEnabled e3 = CacheEnabled e"
    "lastInputs e3 = lastInputs (invalidateOnChange lib (ruleNameOf cat) v e)"
    "Trace e3 = Trace (snd (RunRule lib (prepared lib cat v e) (ruleNameOf cat)))"
    "compiledCache e3 = compiledCache (snd (RunRule lib (prepared lib cat v e) (ruleNameOf cat)))"
    using RunRuleAndGetResult_keeps [of lib "prepared lib cat v e" "ruleNameOf cat"]
    by (simp_all add: rr)
  have s: "snd (runCategory lib cat e v) = e3 \<or> (\<exists>lg. snd (runCategory lib cat e v) = logTo lg e3)"
    using rr
    by (cases cat)
       (auto simp: SearchRule_def NovelInfoRule_def ChapterListRule_def ContentRule_def Let_def
             split: sum.split)
  show "Env (snd (runCategory lib cat e v)) = AList.update (envKeyOf cat) (VMap v) (Env e)"
    "CacheEnabled (snd (runCategory lib cat e v)) = CacheEnabled e"
    "lastInputs (snd (runCategory lib cat e v)) =
       lastInputs (invalidateOnChange lib (ruleNameOf cat) v e)"
    "Trace (snd (runCategory lib cat e v)) =
       Trace (snd (RunRule lib (prepared lib cat v e) (ruleNameOf cat)))"
    "compiledCache (snd (runCategory lib cat e v)) =
       compiledCache (snd (RunRule lib (prepared lib cat v e) (ruleNameOf cat)))"
    using s k by auto
qed

lemma runCategory_Inr:
  assumes "fst (runCategory lib cat e v) = Inr out"
  shows "\<exists>c. fst (RunRule lib (prepared lib cat v e) (ruleNameOf cat)) = Inr c"
proof -
  obtain res e3 where rr:
    "RunRuleAndGetResult lib (prepared lib cat v e) (ruleNameOf cat) = (res, e3)"
    by (cases "RunRuleAndGetResult lib (prepared lib cat v e) (ruleNameOf cat)") auto
  have "\<exists>x. res = Inr x"
    using assms rr
    by (cases cat; cases res)
       (auto simp: SearchRule_def NovelInfoRule_def ChapterListRule_def ContentRule_def Let_def)
  then show ?thesis
    using RunRuleAndGetResult_fst [of lib "prepared lib cat v e" "ruleNameOf cat"]
    by (auto simp: rr split: sum.splits)
qed

lemma validate_not_RuntimeError:
  "validateItems f arr \<noteq> Inl (RuntimeError r err)"
  "validateInfo info \<noteq> Inl (RuntimeError r err)"
  "validateContent content \<noteq> Inl (RuntimeError r err)"
proof -
  have "checkItems f i arr \<noteq> Some (RuntimeError r err)" for i
    by (induction f i arr rule: checkItems.induct) (auto split: val.splits option.splits)
  then show "validateItems f arr \<noteq> Inl (RuntimeError r err)"
    by (auto simp: validateItems_def split: option.splits)
  have "checkInfo info ks \<noteq> Some (RuntimeError r err)" for ks
    by (induction info ks rule: checkInfo.induct) (auto split: val.splits option.splits)
  then show "validateInfo info \<noteq> Inl (RuntimeError r err)"
    by (auto simp: validateInfo_def split: option.splits)
  show "validateContent content \<noteq> Inl (RuntimeError r err)"
    by (auto simp: validateContent_def split: option.splits)
qed

lemma map_sum_id_Inl: "map_sum id g x = Inl y \<longleftrightarrow> x = Inl y"
  by (cases x) auto

lemma runCategory_RuntimeError:
  assumes "fst (runCategory lib cat e v) = Inl (RuntimeError r err)"
  shows "fst (RunRule lib (prepared lib cat v e) (ruleNameOf cat)) = Inl (RuntimeError r err)"
proof -
  obtain res e3 where rr:
    "RunRuleAndGetResult lib (prepared lib cat v e) (ruleNameOf cat) = (res, e3)"
    by (cases "RunRuleAndGetResult lib (prepared lib cat v e) (ruleNameOf cat)") auto
  have "res = Inl (RuntimeError r err)"
    using assms rr validate_not_RuntimeError
    by (cases cat; cases res)
       (auto simp: SearchRule_def NovelInfoRule_def ChapterListRule_def ContentRule_def Let_def
             map_sum_id_Inl split: sum.splits)
  then show ?thesis
    using RunRuleAndGetResult_fst [of lib "prepared lib cat v e" "ruleNameOf cat"]
    by (auto simp: rr split: sum.splits option.splits)
qed


lemma compileEvents_append:
  "compileEvents r (xs @ ys) = compileEvents r xs + compileEvents r ys"
  by (simp add: compileEvents_def)

lemma compileEvents_simps:
  "compileEvents r [EvRun r] = 0"
  "compileEvents r [EvCompile r, EvRun r] = 1"
  by (simp_all add: compileEvents_def)

lemma second_invocation:
  assumes en: "CacheEnabled e1"
    and fp: "lastInputs e1 (ruleNameOf cat) = Some F1"
    and cached: "compiledCache e1 (ruleNameOf cat) \<noteq> None"
  shows "serializeEnv (GoScalar lib) v2 = F1 \<Longrightarrow>
           Trace (snd (runCategory lib cat e1 v2)) = Trace e1 @ [EvRun (ruleNameOf cat)]"
    and "serializeEnv (GoScalar lib) v2 \<noteq> F1 \<Longrightarrow> fst (runCategory lib cat e1 v2) = Inr out \<Longrightarrow>
           Trace (snd (runCategory lib cat e1 v2)) =
             Trace e1 @ [EvCompile (ruleNameOf cat), EvRun (ruleNameOf cat)]"
proof -
  let ?r = "ruleNameOf cat"
  let ?p = "prepared lib cat v2 e1"
  have pen: "CacheEnabled ?p" using en by simp
  show "Trace (snd (runCategory lib cat e1 v2)) = Trace e1 @ [EvRun ?r]"
    if same: "serializeEnv (GoScalar lib) v2 = F1"
  proof -
    have "invalidateOnChange lib ?r v2 e1 = e1"
      using fp same by (intro invalidate_same) simp
    then obtain c where "compiledCache ?p ?r = Some c"
      using cached by auto
    from RunRule_hit(2) [OF pen this]
    show ?thesis by (simp add: runCategory_keeps)
  qed
  show "Trace (snd (runCategory lib cat e1 v2)) = Trace e1 @ [EvCompile ?r, EvRun ?r]"
    if diff: "serializeEnv (GoScalar lib) v2 \<noteq> F1" and ok: "fst (runCategory lib cat e1 v2) = Inr out"
  proof -
    have "compiledCache ?p ?r = None"
      using invalidate_changed [OF en, of ?r lib v2] fp diff by auto
    then have miss: "\<not> CacheEnabled ?p \<or> compiledCache ?p ?r = None" by simp
    from runCategory_Inr [OF ok] obtain c where "fst (RunRule lib ?p ?r) = Inr c" by blast
    then have "Trace (snd (RunRule lib ?p ?r)) = Trace ?p @ [EvCompile ?r, EvRun ?r]"
      using RunRule_miss_outcome [OF miss, of lib ?r] by blast
    then show ?thesis by (simp add: runCategory_keeps)
  qed
qed

text \<open>
  Claim C3.  Caching is on, and the first invocation of a category brings a fingerprint
  that is not the one recorded for its rule (as on a fresh engine); both invocations
  succeed.  Then the first invocation compiles and runs the rule.  A second invocation
  with the same fingerprint only runs the cached program; with a different fingerprint it
  compiles and runs again.  So the two invocations make one compile event when the
  fingerprints agree and two when they differ.
\<close>

theorem cache_coherency:
  assumes en: "CacheEnabled e0"
    and new: "lastInputs e0 (ruleNameOf cat) \<noteq> Some (serializeEnv (GoScalar lib) v1)"
    and r1: "runCategory lib cat e0 v1 = (Inr out1, e1)"
    and r2: "runCategory lib cat e1 v2 = (Inr out2, e2)"
  shows "Trace e2 =
           Trace e0 @ [EvCompile (ruleNameOf cat), EvRun (ruleNameOf cat)] @
             (if serializeEnv (GoScalar lib) v1 = serializeEnv (GoScalar lib) v2
              then [EvRun (ruleNameOf cat)]
              else [EvCompile (ruleNameOf cat), EvRun (ruleNameOf cat)]) \<and>
         compileEvents (ruleNameOf cat) (Trace e2) =
           compileEvents (ruleNameOf cat) (Trace e0) +
             (if serializeEnv (GoScalar lib) v1 = serializeEnv (GoScalar lib) v2 then 1 else 2)"
proof -
  let ?r = "ruleNameOf cat"
  let ?F1 = "serializeEnv (GoScalar lib) v1"
  let ?p0 = "prepared lib cat v1 e0"
  have e1: "e1 = snd (runCategory lib cat e0 v1)" and ok1: "fst (runCategory lib cat e0 v1) = Inr out1"
    by (simp_all add: r1)
  have e2: "e2 = snd (runCategory lib cat e1 v2)" and ok2: "fst (runCategory lib cat e1 v2) = Inr out2"
    by (simp_all add: r2)
  have "compiledCache ?p0 ?r = None"
    using invalidate_changed [OF en new] by simp
  then have miss: "\<not> CacheEnabled ?p0 \<or> compiledCache ?p0 ?r = None" by simp
  from runCategory_Inr [OF ok1] obtain c where "fst (RunRule lib ?p0 ?r) = Inr c" by blast
  then have first: "Trace (snd (RunRule lib ?p0 ?r)) = Trace ?p0 @ [EvCompile ?r, EvRun ?r]"
      "compiledCache (snd (RunRule lib ?p0 ?r)) ?r \<noteq> None"
    using RunRule_miss_outcome [OF miss, of lib ?r] en by auto
  have t1: "Trace e1 = Trace e0 @ [EvCompile ?r, EvRun ?r]"
    using first(1) by (simp add: e1 runCategory_keeps)
  have c1: "compiledCache e1 ?r \<noteq> None"
    using first(2) by (simp add: e1 runCategory_keeps)
  have en1: "CacheEnabled e1"
    using en by (simp add: e1 runCategory_keeps)
  have fp1: "lastInputs e1 ?r = Some ?F1"
    using invalidate_lastInputs [OF en] by (simp add: e1 runCategory_keeps)
  have t2: "Trace e2 = Trace e1 @
      (if ?F1 = serializeEnv (GoScalar lib) v2 then [EvRun ?r] else [EvCompile ?r, EvRun ?r])"
    using second_invocation [OF en1 fp1 c1, of lib v2] ok2 by (auto simp: e2)
  show ?thesis
    unfolding t2 t1 by (simp add: compileEvents_append compileEvents_simps compileEvents_def)
qed

theorem cache_coherency_witness:
  "CacheEnabled (demoEngine ''search'' ''list'') \<and>
   lastInputs (demoEngine ''search'' ''list'') (ruleNameOf Search) \<noteq>
     Some (serializeEnv (GoScalar demoLib) [(''q'', VStr ''x'')]) \<and>
   fst (runCategory demoLib Search (demoEngine ''search'' ''list'') [(''q'', VStr ''x'')]) =
     Inr (Records [[(''title'', VStr ''A''), (''url'', VStr ''u1'')]]) \<and>
   compileEvents ''search''
     (Trace (snd (runCategory demoLib Search
        (snd (runCategory demoLib Search (demoEngine ''search'' ''list'') [(''q'', VStr ''x'')]))
        [(''q'', VStr ''x'')]))) = 1 \<and>
   compileEvents ''search''
     (Trace (snd (runCategory demoLib Search
        (snd (runCategory demoLib Search (demoEngine ''search'' ''list'') [(''q'', VStr ''x'')]))
        [(''q'', VStr ''y'')]))) = 2"
proof -
  let ?e0 = "demoEngine ''search'' ''list'' :: string Engine"
  let ?v1 = "[(''q'', VStr ''x'')]"
  let ?v2 = "[(''q'', VStr ''y'')]"
  let ?out = "Records [[(''title'', VStr ''A''), (''url'', VStr ''u1'')]]"
  let ?e1 = "snd (runCategory demoLib Search ?e0 ?v1)"
  have en: "CacheEnabled ?e0" by (simp add: demo_defs)
  have new: "lastInputs ?e0 (ruleNameOf Search) \<noteq> Some (serializeEnv (GoScalar demoLib) ?v1)"
    by (simp add: demo_defs)
  have f1: "fst (runCategory demoLib Search ?e0 ?v1) = Inr ?out"
    by (simp add: SearchRule_def demo_defs engine_defs)
  have r1: "runCategory demoLib Search ?e0 ?v1 = (Inr ?out, ?e1)"
    using f1 by (simp add: prod_eq_iff)
  have f2: "fst (runCategory demoLib Search ?e1 ?v1) = Inr ?out"
    by (simp add: SearchRule_def demo_defs engine_defs)
  have r2: "runCategory demoLib Search ?e1 ?v1 = (Inr ?out, snd (runCategory demoLib Search ?e1 ?v1))"
    using f2 by (simp add: prod_eq_iff)
  have f3: "fst (runCategory demoLib Search ?e1 ?v2) = Inr ?out"
    by (simp add: SearchRule_def demo_defs engine_defs)
  have r3: "runCategory demoLib Search ?e1 ?v2 = (Inr ?out, snd (runCategory demoLib Search ?e1 ?v2))"
    using f3 by (simp add: prod_eq_iff)
  have t0: "compileEvents ''search'' (Trace ?e0) = 0"
    by (simp add: demo_defs compileEvents_def)
  have ne: "serializeEnv (GoScalar demoLib) ?v1 \<noteq> serializeEnv (GoScalar demoLib) ?v2"
    by (simp add: demo_defs serializeEnv_def)
  have a: "compileEvents ''search'' (Trace (snd (runCategory demoLib Search ?e1 ?v1))) = 1"
    using cache_coherency [OF en new r1 r2, THEN conjunct2] t0 by simp
  have b: "compileEvents ''search'' (Trace (snd (runCategory demoLib Search ?e1 ?v2))) = 2"
    using cache_coherency [OF en new r1 r3, THEN conjunct2] t0 ne by simp
  from en new f1 a b show ?thesis by blast
qed

text \<open>
  Claim C10.  With caching on, a rule that is not in the cache, is found and compiles is
  stored in the cache before it runs.  When that run fails, \<^verbatim>\<open>RunRule\<close> returns the
  runtime error, and the cache holds the program all the same; a second \<^verbatim>\<open>RunRule\<close>
  does not compile, it only runs the cached program.  Seen from an entry point: when an
  invocation returns a runtime error, the engine it leaves has the rule in its cache, and
  the next invocation with the same inputs makes one engine call, a run.
\<close>

theorem failed_run_keeps_cache_entry:
  assumes "CacheEnabled e" and "compiledCache e r = None" and "Rules e r = Some rule"
    and "Compile lib
       (fst (buildPreamble rule (Functions e) (AllModuleNames lib) (denyLibs e)) @ [newline] @ Code rule)
       (fst (snd (buildPreamble rule (Functions e) (AllModuleNames lib) (denyLibs e))))
       (createEnvVariable (Env e)) = Inr c"
    and "fst (Run lib c) = Some err"
  shows "fst (RunRule lib e r) = Inl (RuntimeError r err) \<and>
         compiledCache (snd (RunRule lib e r)) r = Some (snd (Run lib c)) \<and>
         Trace (snd (RunRule lib e r)) = Trace e @ [EvCompile r, EvRun r] \<and>
         fst (RunRule lib (snd (RunRule lib e r)) r) = Inr (snd (Run lib (snd (Run lib c)))) \<and>
         Trace (snd (RunRule lib (snd (RunRule lib e r)) r)) =
           Trace (snd (RunRule lib e r)) @ [EvRun r] \<and>
         (\<forall>cat e0 v r' err' e1.
            CacheEnabled e0 \<and> runCategory lib cat e0 v = (Inl (RuntimeError r' err'), e1) \<longrightarrow>
              compiledCache e1 (ruleNameOf cat) \<noteq> None \<and>
              Trace (snd (runCategory lib cat e1 v)) = Trace e1 @ [EvRun (ruleNameOf cat)])"
proof -
  have miss: "\<not> CacheEnabled e \<or> compiledCache e r = None"
    using assms(2) by simp
  note fresh = RunRule_fresh [OF miss assms(3,4)]
  have 1: "fst (RunRule lib e r) = Inl (RuntimeError r err)"
    using fresh(1) assms(5) by simp
  have 2: "compiledCache (snd (RunRule lib e r)) r = Some (snd (Run lib c))"
    using fresh(3) assms(1) by simp
  have 3: "Trace (snd (RunRule lib e r)) = Trace e @ [EvCompile r, EvRun r]"
    using fresh(2) .
  have en': "CacheEnabled (snd (RunRule lib e r))"
    using assms(1) by simp
  note hit = RunRule_hit [OF en' 2]
  have 6: "compiledCache e1 (ruleNameOf cat) \<noteq> None \<and>
           Trace (snd (runCategory lib cat e1 v)) = Trace e1 @ [EvRun (ruleNameOf cat)]"
    if en0: "CacheEnabled e0" and run: "runCategory lib cat e0 v = (Inl (RuntimeError r' err'), e1)"
    for cat e0 v r' err' and e1 :: "'a Engine"
  proof -
    let ?r = "ruleNameOf cat"
    let ?p0 = "prepared lib cat v e0"
    have e1: "e1 = snd (runCategory lib cat e0 v)"
      and f: "fst (runCategory lib cat e0 v) = Inl (RuntimeError r' err')"
      by (simp_all add: run)
    have rr: "fst (RunRule lib ?p0 ?r) = Inl (RuntimeError r' err')"
      using runCategory_RuntimeError [OF f] .
    have m: "\<not> CacheEnabled ?p0 \<or> compiledCache ?p0 ?r = None"
      using RunRule_runtime_error_is_miss [OF rr] .
    have "compiledCache (snd (RunRule lib ?p0 ?r)) ?r \<noteq> None"
      using RunRule_miss_outcome [where e = ?p0 and r = ?r and lib = lib and r' = r', OF m] rr en0
      by auto
    then have c1: "compiledCache e1 ?r \<noteq> None"
      by (simp add: e1 runCategory_keeps)
    have en1: "CacheEnabled e1"
      using en0 by (simp add: e1 runCategory_keeps)
    have fp1: "lastInputs e1 ?r = Some (serializeEnv (GoScalar lib) v)"
      using invalidate_lastInputs [OF en0] by (simp add: e1 runCategory_keeps)
    show ?thesis
      using second_invocation(1) [OF en1 fp1 c1, of lib v] c1 by simp
  qed
  from 1 2 3 hit(1,2) 6 show ?thesis by blast
qed


theorem failed_run_keeps_cache_entry_witness:
  "CacheEnabled (demoEngine ''search'' ''boom'') \<and>
   compiledCache (demoEngine ''search'' ''boom'') ''search'' = None \<and>
   fst (Run demoLib (newline # ''boom'')) = Some ''Runtime Error: boom'' \<and>
   fst (RunRule demoLib (demoEngine ''search'' ''boom'') ''search'') =
     Inl (RuntimeError ''search'' ''Runtime Error: boom'') \<and>
   compiledCache (snd (RunRule demoLib (demoEngine ''search'' ''boom'') ''search'')) ''search'' =
     Some (newline # ''boom'') \<and>
   fst (runCategory demoLib Search (demoEngine ''search'' ''boom'') []) =
     Inl (RuntimeError ''search'' ''Runtime Error: boom'') \<and>
   Trace (snd (runCategory demoLib Search
            (snd (runCategory demoLib Search (demoEngine ''search'' ''boom'') [])) [])) =
     [EvCompile ''search'', EvRun ''search'', EvRun ''search'']"
proof -
  let ?e = "demoEngine ''search'' ''boom'' :: string Engine"
  let ?rule = "\<lparr>Imports = [], Code = ''boom''\<rparr>"
  let ?e1 = "snd (runCategory demoLib Search ?e [])"
  have h1: "CacheEnabled ?e" by (simp add: demo_defs)
  have h2: "compiledCache ?e ''search'' = None" by (simp add: demo_defs)
  have h3: "Rules ?e ''search'' = Some ?rule" by (simp add: demo_defs)
  have h4: "Compile demoLib
       (fst (buildPreamble ?rule (Functions ?e) (AllModuleNames demoLib) (denyLibs ?e)) @
          [newline] @ Code ?rule)
       (fst (snd (buildPreamble ?rule (Functions ?e) (AllModuleNames demoLib) (denyLibs ?e))))
       (createEnvVariable (Env ?e)) = Inr (newline # ''boom'')"
    by (simp add: demo_defs buildPreamble_def)
  have h5: "fst (Run demoLib (newline # ''boom'')) = Some ''Runtime Error: boom''"
    by (simp add: demo_defs)
  note t = failed_run_keeps_cache_entry [OF h1 h2 h3 h4 h5]
  have a: "fst (RunRule demoLib ?e ''search'') = Inl (RuntimeError ''search'' ''Runtime Error: boom'')"
    using t by blast
  have "compiledCache (snd (RunRule demoLib ?e ''search'')) ''search'' =
      Some (snd (Run demoLib (newline # ''boom'')))"
    using t by blast
  then have b: "compiledCache (snd (RunRule demoLib ?e ''search'')) ''search'' =
      Some (newline # ''boom'')"
    by (simp add: demo_defs)
  have f: "fst (runCategory demoLib Search ?e []) =
      Inl (RuntimeError ''search'' ''Runtime Error: boom'')"
    by (simp add: SearchRule_def demo_defs engine_defs)
  then have r: "runCategory demoLib Search ?e [] =
      (Inl (RuntimeError ''search'' ''Runtime Error: boom''), ?e1)"
    by (simp add: prod_eq_iff)
  have "Trace (snd (runCategory demoLib Search ?e1 [])) = Trace ?e1 @ [EvRun (ruleNameOf Search)]"
    using t h1 r by blast
  moreover have "Trace ?e1 = [EvCompile ''search'', EvRun ''search'']"
    by (simp add: SearchRule_def demo_defs engine_defs)
  ultimately have c: "Trace (snd (runCategory demoLib Search ?e1 [])) =
      [EvCompile ''search'', EvRun ''search'', EvRun ''search'']"
    by simp
  from h1 h2 h5 a b f c show ?thesis by blast
qed

text \<open>
  Claim C1 does not hold on the cache-hit path.  When the rule is in the cache,
  \<^verbatim>\<open>RunRule\<close> runs the cached program and returns it with no error, whatever the run
  returned: a failed run is reported as success.  On the other path (a rule that is not
  in the cache, is found and compiles) a failed run gives the runtime error with the
  rule's name.
\<close>

theorem cached_run_error_dropped:
  assumes "fst (Run lib c) = Some err"
  shows "(CacheEnabled e \<and> compiledCache e r = Some c \<longrightarrow>
            fst (RunRule lib e r) = Inr (snd (Run lib c))) \<and>
         ((\<not> CacheEnabled e \<or> compiledCache e r = None) \<and> Rules e r = Some rule \<and>
          Compile lib
            (fst (buildPreamble rule (Functions e) (AllModuleNames lib) (denyLibs e)) @
               [newline] @ Code rule)
            (fst (snd (buildPreamble rule (Functions e) (AllModuleNames lib) (denyLibs e))))
            (createEnvVariable (Env e)) = Inr c \<longrightarrow>
            fst (RunRule lib e r) = Inl (RuntimeError r err))"
proof (intro conjI impI)
  assume "CacheEnabled e \<and> compiledCache e r = Some c"
  then show "fst (RunRule lib e r) = Inr (snd (Run lib c))"
    using RunRule_hit(1) [of e r c lib] by blast
next
  assume a: "(\<not> CacheEnabled e \<or> compiledCache e r = None) \<and> Rules e r = Some rule \<and>
          Compile lib
            (fst (buildPreamble rule (Functions e) (AllModuleNames lib) (denyLibs e)) @
               [newline] @ Code rule)
            (fst (snd (buildPreamble rule (Functions e) (AllModuleNames lib) (denyLibs e))))
            (createEnvVariable (Env e)) = Inr c"
  then have m: "\<not> CacheEnabled e \<or> compiledCache e r = None" and ru: "Rules e r = Some rule"
    and co: "Compile lib
            (fst (buildPreamble rule (Functions e) (AllModuleNames lib) (denyLibs e)) @
               [newline] @ Code rule)
            (fst (snd (buildPreamble rule (Functions e) (AllModuleNames lib) (denyLibs e))))
            (createEnvVariable (Env e)) = Inr c"
    by (rule conjunct1, rule conjunct2 [THEN conjunct1], rule conjunct2 [THEN conjunct2])
  show "fst (RunRule lib e r) = Inl (RuntimeError r err)"
    using RunRule_fresh(1) [OF m ru co] assms by simp
qed

theorem cached_run_error_dropped_witness:
  "fst (Run demoLib (newline # ''boom'')) = Some ''Runtime Error: boom'' \<and>
   CacheEnabled (snd (RunRule demoLib (demoEngine ''r'' ''boom'') ''r'')) \<and>
   compiledCache (snd (RunRule demoLib (demoEngine ''r'' ''boom'') ''r'')) ''r'' =
     Some (newline # ''boom'') \<and>
   fst (RunRule demoLib (demoEngine ''r'' ''boom'') ''r'') =
     Inl (RuntimeError ''r'' ''Runtime Error: boom'') \<and>
   fst (RunRule demoLib (snd (RunRule demoLib (demoEngine ''r'' ''boom'') ''r'')) ''r'') =
     Inr (newline # ''boom'')"
proof -
  let ?e = "demoEngine ''r'' ''boom'' :: string Engine"
  let ?e1 = "snd (RunRule demoLib ?e ''r'')"
  have h: "fst (Run demoLib (newline # ''boom'')) = Some ''Runtime Error: boom''"
    by (simp add: demo_defs)
  have en: "CacheEnabled ?e1" by (simp add: demo_defs engine_defs)
  have ca: "compiledCache ?e1 ''r'' = Some (newline # ''boom'')"
    by (simp add: demo_defs engine_defs)
  have first: "fst (RunRule demoLib ?e ''r'') = Inl (RuntimeError ''r'' ''Runtime Error: boom'')"
    by (simp add: demo_defs engine_defs)
  have "fst (RunRule demoLib ?e1 ''r'') = Inr (snd (Run demoLib (newline # ''boom'')))"
    using cached_run_error_dropped [OF h, of ?e1 "''r''"] en ca by blast
  then have second: "fst (RunRule demoLib ?e1 ''r'') = Inr (newline # ''boom'')"
    by (simp add: demo_defs)
  from h en ca first second show ?thesis by blast
qed



lemma RunRule_cache_other:
  "r' \<noteq> r \<Longrightarrow> compiledCache (snd (RunRule lib e r)) r' = compiledCache e r'"
  by (simp add: RunRule_def Let_def split: option.split sum.split)

lemma ChapterListRule_error:
  assumes "fst (RunRuleAndGetResult lib (prepared lib ChapterList v e) ''chapter-list'') = Inl err"
  shows "fst (ChapterListRule lib e v) = Inl err"
proof -
  obtain res e3 where rr:
    "RunRuleAndGetResult lib (prepared lib ChapterList v e) ''chapter-list'' = (res, e3)"
    by (cases "RunRuleAndGetResult lib (prepared lib ChapterList v e) ''chapter-list''") auto
  then have "res = Inl err" using assms by simp
  then show ?thesis using rr by (simp add: ChapterListRule_def)
qed

text \<open>
  Claim C9.  \<^verbatim>\<open>ChapterListRule\<close> stores its inputs in the environment under the key
  \<open>chapter_list\<close> and leaves the key \<open>chapter-list\<close> as it was, while the fingerprint is
  recorded, the cache entry kept and the rule looked up, compiled and run under the name
  \<open>chapter-list\<close>; the environment object handed to the compiler holds the inputs under
  \<open>chapter_list\<close>.  The other three entry points store the inputs under the name of their
  rule.
\<close>

theorem chapter_list_env_key:
  "Env (snd (ChapterListRule lib e v)) = AList.update ''chapter_list'' (VMap v) (Env e) \<and>
   map_of (Env (snd (ChapterListRule lib e v))) ''chapter_list'' = Some (VMap v) \<and>
   map_of (Env (snd (ChapterListRule lib e v))) ''chapter-list'' = map_of (Env e) ''chapter-list'' \<and>
   (CacheEnabled e \<longrightarrow>
      lastInputs (snd (ChapterListRule lib e v)) ''chapter-list'' =
        Some (serializeEnv (GoScalar lib) v) \<and>
      lastInputs (snd (ChapterListRule lib e v)) ''chapter_list'' = lastInputs e ''chapter_list'') \<and>
   compiledCache (snd (ChapterListRule lib e v)) ''chapter_list'' = compiledCache e ''chapter_list'' \<and>
   ((\<not> CacheEnabled e \<or> lastInputs e ''chapter-list'' \<noteq> Some (serializeEnv (GoScalar lib) v)) \<longrightarrow>
      (Rules e ''chapter-list'' = None \<longrightarrow>
         fst (ChapterListRule lib e v) = Inl (RuleNotFound ''chapter-list'')) \<and>
      (\<forall>rule err. Rules e ''chapter-list'' = Some rule \<and>
         Compile lib
           (fst (buildPreamble rule (Functions e) (AllModuleNames lib) (denyLibs e)) @
              [newline] @ Code rule)
           (fst (snd (buildPreamble rule (Functions e) (AllModuleNames lib) (denyLibs e))))
           (createEnvVariable (AList.update ''chapter_list'' (VMap v) (Env e))) = Inl err \<longrightarrow>
         fst (ChapterListRule lib e v) = Inl (CompileError ''chapter-list'' err))) \<and>
   Env (snd (SearchRule lib e v)) = AList.update ''search'' (VMap v) (Env e) \<and>
   Env (snd (NovelInfoRule lib e v)) = AList.update ''info'' (VMap v) (Env e) \<and>
   Env (snd (ContentRule lib e v)) = AList.update ''content'' (VMap v) (Env e)"
proof -
  let ?p = "prepared lib ChapterList v e"
  have env: "Env (snd (ChapterListRule lib e v)) = AList.update ''chapter_list'' (VMap v) (Env e)"
    using runCategory_keeps(1) [of lib ChapterList e v] by simp
  have m1: "map_of (Env (snd (ChapterListRule lib e v))) ''chapter_list'' = Some (VMap v)"
    unfolding env by (simp add: update_conv')
  have m2: "map_of (Env (snd (ChapterListRule lib e v))) ''chapter-list'' =
      map_of (Env e) ''chapter-list''"
    unfolding env by (simp add: update_conv')
  have li: "lastInputs (snd (ChapterListRule lib e v)) =
      lastInputs (invalidateOnChange lib ''chapter-list'' v e)"
    using runCategory_keeps(3) [of lib ChapterList e v] by simp
  have l1: "lastInputs (snd (ChapterListRule lib e v)) ''chapter-list'' =
      Some (serializeEnv (GoScalar lib) v)" if "CacheEnabled e"
    unfolding li using invalidate_lastInputs [OF that] .
  have l2: "lastInputs (snd (ChapterListRule lib e v)) ''chapter_list'' = lastInputs e ''chapter_list''"
    unfolding li by (rule invalidate_lastInputs_other) simp
  have cc: "compiledCache (snd (ChapterListRule lib e v)) ''chapter_list'' =
      compiledCache e ''chapter_list''"
    using runCategory_keeps(5) [of lib ChapterList e v]
    by (simp add: RunRule_cache_other invalidateOnChange_def Let_def)
  have miss: "\<not> CacheEnabled ?p \<or> compiledCache ?p ''chapter-list'' = None"
    if "\<not> CacheEnabled e \<or> lastInputs e ''chapter-list'' \<noteq> Some (serializeEnv (GoScalar lib) v)"
    using that invalidate_changed [of e "''chapter-list''" lib v] by auto
  have nf: "fst (ChapterListRule lib e v) = Inl (RuleNotFound ''chapter-list'')"
    if c: "\<not> CacheEnabled e \<or> lastInputs e ''chapter-list'' \<noteq> Some (serializeEnv (GoScalar lib) v)"
      and n: "Rules e ''chapter-list'' = None"
  proof -
    have "fst (RunRule lib ?p ''chapter-list'') = Inl (RuleNotFound ''chapter-list'')"
      using RunRule_not_found(1) [OF miss [OF c]] n by simp
    then show ?thesis
      by (intro ChapterListRule_error) (simp add: RunRuleAndGetResult_fst)
  qed
  have ce: "fst (ChapterListRule lib e v) = Inl (CompileError ''chapter-list'' err)"
    if c: "\<not> CacheEnabled e \<or> lastInputs e ''chapter-list'' \<noteq> Some (serializeEnv (GoScalar lib) v)"
      and n: "Rules e ''chapter-list'' = Some rule \<and>
         Compile lib
           (fst (buildPreamble rule (Functions e) (AllModuleNames lib) (denyLibs e)) @
              [newline] @ Code rule)
           (fst (snd (buildPreamble rule (Functions e) (AllModuleNames lib) (denyLibs e))))
           (createEnvVariable (AList.update ''chapter_list'' (VMap v) (Env e))) = Inl err"
    for rule err
  proof -
    have "fst (RunRule lib ?p ''chapter-list'') = Inl (CompileError ''chapter-list'' err)"
      using n by (intro RunRule_compile_error(1) [OF miss [OF c], of rule]) simp_all
    then show ?thesis
      by (intro ChapterListRule_error) (simp add: RunRuleAndGetResult_fst)
  qed
  have others: "Env (snd (SearchRule lib e v)) = AList.update ''search'' (VMap v) (Env e)"
    "Env (snd (NovelInfoRule lib e v)) = AList.update ''info'' (VMap v) (Env e)"
    "Env (snd (ContentRule lib e v)) = AList.update ''content'' (VMap v) (Env e)"
    using runCategory_keeps(1) [of lib Search e v] runCategory_keeps(1) [of lib Info e v]
      runCategory_keeps(1) [of lib Content e v]
    by simp_all
  from env m1 m2 l1 l2 cc nf ce others show ?thesis by blast
qed


theorem chapter_list_env_key_witness:
  "CacheEnabled (demoEngine ''chapter-list'' ''list'') \<and>
   Env (snd (ChapterListRule demoLib (demoEngine ''chapter-list'' ''list'') [(''url'', VStr ''u'')])) =
     [(''chapter_list'', VMap [(''url'', VStr ''u'')])] \<and>
   lastInputs (snd (ChapterListRule demoLib (demoEngine ''chapter-list'' ''list'')
       [(''url'', VStr ''u'')])) ''chapter-list'' =
     Some (serializeEnv (GoScalar demoLib) [(''url'', VStr ''u'')]) \<and>
   fst (ChapterListRule demoLib (demoEngine ''chapter-list'' ''list'') [(''url'', VStr ''u'')]) =
     Inr [[(''title'', VStr ''A''), (''url'', VStr ''u1'')]] \<and>
   Rules (demoEngine ''chapter_list'' ''list'') ''chapter-list'' = None \<and>
   fst (ChapterListRule demoLib (demoEngine ''chapter_list'' ''list'') [(''url'', VStr ''u'')]) =
     Inl (RuleNotFound ''chapter-list'') \<and>
   fst (ChapterListRule demoLib (demoEngine ''chapter-list'' ''syntax error'') [(''url'', VStr ''u'')]) =
     Inl (CompileError ''chapter-list'' ''Compile Error: unexpected token'')"
proof -
  let ?v = "[(''url'', VStr ''u'')]"
  let ?a = "demoEngine ''chapter-list'' ''list'' :: string Engine"
  let ?b = "demoEngine ''chapter_list'' ''list'' :: string Engine"
  let ?c = "demoEngine ''chapter-list'' ''syntax error'' :: string Engine"
  let ?rule = "\<lparr>Imports = [], Code = ''syntax error''\<rparr>"
  have en: "CacheEnabled ?a" by (simp add: demo_defs)
  have "Env (snd (ChapterListRule demoLib ?a ?v)) = AList.update ''chapter_list'' (VMap ?v) (Env ?a)"
    using chapter_list_env_key [of demoLib ?a ?v] by (rule conjunct1)
  then have 1: "Env (snd (ChapterListRule demoLib ?a ?v)) = [(''chapter_list'', VMap ?v)]"
    by (simp add: demo_defs)
  have 2: "lastInputs (snd (ChapterListRule demoLib ?a ?v)) ''chapter-list'' =
      Some (serializeEnv (GoScalar demoLib) ?v)"
    using chapter_list_env_key [of demoLib ?a ?v, THEN conjunct2, THEN conjunct2, THEN conjunct2,
        THEN conjunct1, rule_format, OF en]
    by (rule conjunct1)
  have 3: "fst (ChapterListRule demoLib ?a ?v) = Inr [[(''title'', VStr ''A''), (''url'', VStr ''u1'')]]"
    by (simp add: ChapterListRule_def demo_defs engine_defs)
  have missb: "\<not> CacheEnabled ?b \<or>
      lastInputs ?b ''chapter-list'' \<noteq> Some (serializeEnv (GoScalar demoLib) ?v)"
    by (simp add: demo_defs)
  have nb: "Rules ?b ''chapter-list'' = None" by (simp add: demo_defs)
  have 4: "fst (ChapterListRule demoLib ?b ?v) = Inl (RuleNotFound ''chapter-list'')"
    using chapter_list_env_key [of demoLib ?b ?v, THEN conjunct2, THEN conjunct2, THEN conjunct2,
        THEN conjunct2, THEN conjunct2, THEN conjunct1, rule_format, OF missb, THEN conjunct1,
        rule_format, OF nb] .
  have missc: "\<not> CacheEnabled ?c \<or>
      lastInputs ?c ''chapter-list'' \<noteq> Some (serializeEnv (GoScalar demoLib) ?v)"
    by (simp add: demo_defs)
  have cc: "Rules ?c ''chapter-list'' = Some ?rule \<and>
      Compile demoLib
        (fst (buildPreamble ?rule (Functions ?c) (AllModuleNames demoLib) (denyLibs ?c)) @
           [newline] @ Code ?rule)
        (fst (snd (buildPreamble ?rule (Functions ?c) (AllModuleNames demoLib) (denyLibs ?c))))
        (createEnvVariable (AList.update ''chapter_list'' (VMap ?v) (Env ?c))) =
      Inl ''Compile Error: unexpected token''"
    by (simp add: demo_defs buildPreamble_def)
  have 5: "fst (ChapterListRule demoLib ?c ?v) =
      Inl (CompileError ''chapter-list'' ''Compile Error: unexpected token'')"
    using chapter_list_env_key [of demoLib ?c ?v, THEN conjunct2, THEN conjunct2, THEN conjunct2,
        THEN conjunct2, THEN conjunct2, THEN conjunct1, rule_format, OF missc, THEN conjunct2,
        rule_format, OF cc] .
  from en 1 2 3 nb 4 5 show ?thesis by (intro conjI)
qed

lemma sort_key_fst_unique:
  fixes m1 m2 :: "('k::linorder \<times> 'v) list"
  assumes d1: "distinct (map fst m1)" and d2: "distinct (map fst m2)" and s: "set m1 = set m2"
  shows "sort_key fst m1 = sort_key fst m2"
proof -
  let ?xs = "sort_key fst m1" and ?ys = "sort_key fst m2"
  have inj: "inj_on fst (set m1)"
    using d1 by (simp add: distinct_map)
  have dx: "distinct (map fst ?xs)"
    using d1 by (simp add: distinct_map)
  have dy: "distinct (map fst ?ys)"
    using d2 by (simp add: distinct_map)
  have "set (map fst ?xs) = set (map fst ?ys)"
    using s by simp
  then have keys: "map fst ?xs = map fst ?ys"
    using dx dy by (intro sorted_distinct_set_unique) simp_all
  have "inj_on fst (set ?xs \<union> set ?ys)"
    using inj s by simp
  then show ?thesis
    using keys by (simp add: inj_on_map_eq_map)
qed

lemma sort_key_fst_keys:
  fixes m1 m2 :: "('k::linorder \<times> 'v) list"
  assumes d1: "distinct (map fst m1)" and d2: "distinct (map fst m2)"
    and s: "fst ` set m1 = fst ` set m2"
  shows "map fst (sort_key fst m1) = map fst (sort_key fst m2)"
proof -
  have "distinct (map fst (sort_key fst m1))" "distinct (map fst (sort_key fst m2))"
    using d1 d2 by (simp_all add: distinct_map)
  moreover have "set (map fst (sort_key fst m1)) = set (map fst (sort_key fst m2))"
    using s by simp
  ultimately show ?thesis
    by (intro sorted_distinct_set_unique) simp_all
qed

lemma map_render_eq:
  assumes keys: "map fst xs = map fst ys"
    and vals: "\<And>k v1 v2. (k, v1) \<in> set xs \<Longrightarrow> (k, v2) \<in> set ys \<Longrightarrow> g v1 = g v2"
  shows "map (\<lambda>kv. h (fst kv) @ g (snd kv)) xs = map (\<lambda>kv. h (fst kv) @ g (snd kv)) ys"
  using assms
proof (induction xs arbitrary: ys)
  case Nil
  then show ?case by simp
next
  case (Cons x xs)
  then obtain y ys' where ys: "ys = y # ys'" by (cases ys) auto
  have k: "fst x = fst y" "map fst xs = map fst ys'"
    using Cons.prems(1) ys by simp_all
  have a: "(fst x, snd x) \<in> set (x # xs)" by simp
  have b: "(fst x, snd y) \<in> set ys" by (simp add: ys k(1))
  have "g (snd x) = g (snd y)"
    using a b by (rule Cons.prems(2))
  moreover have "map (\<lambda>kv. h (fst kv) @ g (snd kv)) xs = map (\<lambda>kv. h (fst kv) @ g (snd kv)) ys'"
  proof (rule Cons.IH [OF k(2)])
    fix k v1 v2 assume "(k, v1) \<in> set xs" "(k, v2) \<in> set ys'"
    then have "(k, v1) \<in> set (x # xs)" "(k, v2) \<in> set ys"
      by (simp_all add: ys)
    then show "g v1 = g v2" by (rule Cons.prems(2))
  qed
  ultimately show ?case by (simp add: ys k(1))
qed

lemma goSyntax_sameVal:
  "sameVal v1 v2 \<Longrightarrow> goSyntax scalar v1 = goSyntax scalar v2"
proof (induction rule: sameVal.induct)
  case (same v)
  show ?case by simp
next
  case (arr xs ys)
  then have "map (goSyntax scalar) xs = map (goSyntax scalar) ys"
    by (induction rule: list_all2_induct) simp_all
  then show ?case by simp
next
  case (map m1 m2)
  have keys: "map fst (sort_key fst m1) = map fst (sort_key fst m2)"
    using map.hyps(1,2,3) by (rule sort_key_fst_keys)
  have "map (\<lambda>kv. (scalar (VStr (fst kv)) @ '':'') @ goSyntax scalar (snd kv)) (sort_key fst m1) =
        map (\<lambda>kv. (scalar (VStr (fst kv)) @ '':'') @ goSyntax scalar (snd kv)) (sort_key fst m2)"
    using map.IH by (intro map_render_eq [OF keys]) auto
  then show ?case by simp
qed

lemma sameVal_reordered:
  assumes "distinct (map fst m1)" and "distinct (map fst m2)" and "set m1 = set m2"
  shows "sameVal (VMap m1) (VMap m2)"
proof (rule sameVal.map [OF assms(1,2)])
  show "fst ` set m1 = fst ` set m2" using assms(3) by simp
  show "\<forall>k v1 v2. (k, v1) \<in> set m1 \<longrightarrow> (k, v2) \<in> set m2 \<longrightarrow> sameVal v1 v2"
  proof (intro allI impI)
    fix k v1 v2 assume "(k, v1) \<in> set m1" "(k, v2) \<in> set m2"
    then have "v1 = v2"
      using assms(1,3) by (metis eq_key_imp_eq_value)
    then show "sameVal v1 v2" by (simp add: sameVal.same)
  qed
qed

text \<open>
  Claim C4.  Two input maps with the same key/value pairs, whatever the order in which
  the pairs were inserted, have the same fingerprint: the rendering walks a map in the
  sorted order of its keys.  The same holds when the values are themselves maps that
  agree up to the order of their entries.  After an invocation with one of two maps of
  equal fingerprint, an invocation with the other finds its fingerprint recorded and
  leaves the cache entry in place.
\<close>

theorem serializeEnv_order_independent:
  "(distinct (map fst m1) \<and> distinct (map fst m2) \<and> set m1 = set m2 \<longrightarrow>
      serializeEnv scalar m1 = serializeEnv scalar m2) \<and>
   (sameVal (VMap m1) (VMap m2) \<longrightarrow> serializeEnv scalar m1 = serializeEnv scalar m2) \<and>
   (serializeEnv (GoScalar lib) m1 = serializeEnv (GoScalar lib) m2 \<and> CacheEnabled e \<longrightarrow>
      invalidateOnChange lib (ruleNameOf cat) m2 (snd (runCategory lib cat e m1)) =
        snd (runCategory lib cat e m1))"
proof (intro conjI impI)
  assume "distinct (map fst m1) \<and> distinct (map fst m2) \<and> set m1 = set m2"
  then have "sort_key fst m1 = sort_key fst m2"
    by (intro sort_key_fst_unique) simp_all
  then show "serializeEnv scalar m1 = serializeEnv scalar m2"
    by (simp add: serializeEnv_def)
next
  assume "sameVal (VMap m1) (VMap m2)"
  then show "serializeEnv scalar m1 = serializeEnv scalar m2"
    unfolding serializeEnv_def by (rule goSyntax_sameVal)
next
  assume a: "serializeEnv (GoScalar lib) m1 = serializeEnv (GoScalar lib) m2 \<and> CacheEnabled e"
  show "invalidateOnChange lib (ruleNameOf cat) m2 (snd (runCategory lib cat e m1)) =
        snd (runCategory lib cat e m1)"
  proof (rule invalidate_same)
    have en: "CacheEnabled e" using a by simp
    show "lastInputs (snd (runCategory lib cat e m1)) (ruleNameOf cat) =
        Some (serializeEnv (GoScalar lib) m2)"
      using invalidate_lastInputs [OF en, of lib "ruleNameOf cat" m1] a
      by (simp add: runCategory_keeps)
  qed
qed

theorem serializeEnv_order_independent_witness:
  "distinct (map fst [(''q'', VStr ''x''), (''page'', VInt 2)]) \<and>
   distinct (map fst [(''page'', VInt 2), (''q'', VStr ''x'')]) \<and>
   set [(''q'', VStr ''x''), (''page'', VInt 2)] = set [(''page'', VInt 2), (''q'', VStr ''x'')] \<and>
   serializeEnv demoScalar [(''q'', VStr ''x''), (''page'', VInt 2)] =
     serializeEnv demoScalar [(''page'', VInt 2), (''q'', VStr ''x'')] \<and>
   serializeEnv demoScalar [(''q'', VStr ''x''), (''page'', VInt 2)] =
     ''map[string]interface {}{'' @ [dquote] @ ''page'' @ [dquote] @ '':scalar, '' @
       [dquote] @ ''q'' @ [dquote] @ '':'' @ [dquote] @ ''x'' @ [dquote] @ ''}'' \<and>
   sameVal (VMap [(''q'', VStr ''x''), (''f'', VMap [(''a'', VInt 1), (''b'', VInt 2)])])
           (VMap [(''f'', VMap [(''b'', VInt 2), (''a'', VInt 1)]), (''q'', VStr ''x'')]) \<and>
   serializeEnv demoScalar [(''q'', VStr ''x''), (''f'', VMap [(''a'', VInt 1), (''b'', VInt 2)])] =
     serializeEnv demoScalar [(''f'', VMap [(''b'', VInt 2), (''a'', VInt 1)]), (''q'', VStr ''x'')] \<and>
   CacheEnabled (demoEngine ''search'' ''list'') \<and>
   invalidateOnChange demoLib ''search'' [(''page'', VInt 2), (''q'', VStr ''x'')]
       (snd (runCategory demoLib Search (demoEngine ''search'' ''list'')
          [(''q'', VStr ''x''), (''page'', VInt 2)])) =
     snd (runCategory demoLib Search (demoEngine ''search'' ''list'')
          [(''q'', VStr ''x''), (''page'', VInt 2)])"
proof -
  let ?m1 = "[(''q'', VStr ''x''), (''page'', VInt 2)]"
  let ?m2 = "[(''page'', VInt 2), (''q'', VStr ''x'')]"
  let ?n1 = "[(''q'', VStr ''x''), (''f'', VMap [(''a'', VInt 1), (''b'', VInt 2)])]"
  let ?n2 = "[(''f'', VMap [(''b'', VInt 2), (''a'', VInt 1)]), (''q'', VStr ''x'')]"
  let ?eng = "demoEngine ''search'' ''list'' :: string Engine"
  have h1: "distinct (map fst ?m1)" by simp
  have h2: "distinct (map fst ?m2)" by simp
  have h3: "set ?m1 = set ?m2" by auto
  have a: "serializeEnv demoScalar ?m1 = serializeEnv demoScalar ?m2"
    using serializeEnv_order_independent [of ?m1 ?m2 demoScalar, THEN conjunct1] h1 h2 h3
    by simp
  have b: "serializeEnv demoScalar ?m1 =
     ''map[string]interface {}{'' @ [dquote] @ ''page'' @ [dquote] @ '':scalar, '' @
       [dquote] @ ''q'' @ [dquote] @ '':'' @ [dquote] @ ''x'' @ [dquote] @ ''}''"
    by (simp add: serializeEnv_def demoScalar_def dquote_def)
  have inner: "sameVal (VMap [(''a'', VInt 1), (''b'', VInt 2)]) (VMap [(''b'', VInt 2), (''a'', VInt 1)])"
    by (rule sameVal_reordered) auto
  have c: "sameVal (VMap ?n1) (VMap ?n2)"
    by (rule sameVal.map) (auto intro: sameVal.same inner)
  have d: "serializeEnv demoScalar ?n1 = serializeEnv demoScalar ?n2"
    using serializeEnv_order_independent [of ?n1 ?n2 demoScalar, THEN conjunct2, THEN conjunct1] c
    by simp
  have en: "CacheEnabled ?eng" by (simp add: demo_defs)
  have a': "serializeEnv (GoScalar demoLib) ?m1 = serializeEnv (GoScalar demoLib) ?m2"
    using a by (simp add: demoLib_def)
  have f: "invalidateOnChange demoLib ''search'' ?m2 (snd (runCategory demoLib Search ?eng ?m1)) =
      snd (runCategory demoLib Search ?eng ?m1)"
    using serializeEnv_order_independent [of ?m1 ?m2 demoScalar demoLib ?eng Search,
        THEN conjunct2, THEN conjunct2] a' en
    by simp
  from h1 h2 h3 a b c d en f show ?thesis by (intro conjI)
qed

end
